theory Spec2Isabelle
  imports Complex_Main "HOL-Library.Word"
begin

unbundle bit_operations_syntax

section \<open>C++ integer arithmetic\<close>

text \<open>
  The C++ type \<open>int\<close> is modelled by \<^typ>\<open>int\<close>. Division and remainder truncate
  towards zero in C++, unlike \<open>div\<close> and \<open>mod\<close> of HOL, so both are written out.
  No operation modelled below divides by zero (the divisors are the constants 8, 64, 90
  and 4, and \<open>falloff + 2\<close> inside a loop that runs only for \<open>falloff \<ge> 1\<close>). Signed
  overflow is undefined in C++; the arithmetic below is exact, so a statement about
  operands whose exact result leaves the 32-bit range describes no execution.
\<close>

definition c_div :: "int \<Rightarrow> int \<Rightarrow> int" where
  "c_div a b = (if (a < 0) = (b < 0) then \<bar>a\<bar> div \<bar>b\<bar> else - (\<bar>a\<bar> div \<bar>b\<bar>))"

definition c_mod :: "int \<Rightarrow> int \<Rightarrow> int" where
  "c_mod a b = (if a < 0 then - (\<bar>a\<bar> mod \<bar>b\<bar>) else \<bar>a\<bar> mod \<bar>b\<bar>)"

text \<open>\<open>std::clamp(v, lo, hi)\<close>.\<close>

definition std_clamp :: "int \<Rightarrow> int \<Rightarrow> int \<Rightarrow> int" where
  "std_clamp v lo hi = (if v < lo then lo else if hi < v then hi else v)"

text \<open>\<open>1 << n\<close> on \<open>int\<close>, for the shift counts \<open>0 \<le> n < 31\<close> where C++ defines it.\<close>

definition shl1 :: "int \<Rightarrow> int" where
  "shl1 n = push_bit (nat n) 1"

type_synonym uint8_t = "8 word"

section \<open>GridLedBuffer (MLGridLedBuffer.h)\<close>

abbreviation (input) kMaxWidth :: int where "kMaxWidth \<equiv> 16"
abbreviation (input) kMaxHeight :: int where "kMaxHeight \<equiv> 16"
abbreviation (input) kQuadrantSize :: int where "kQuadrantSize \<equiv> 8"
abbreviation (input) kMaxLevel :: int where "kMaxLevel \<equiv> 15"

text \<open>
  The members \<open>width_\<close>, \<open>height_\<close>, \<open>levels_\<close> (a \<open>std::array\<close> of
  \<open>kMaxWidth * kMaxHeight = 256\<close> bytes) and \<open>dirtyMask_\<close>.
\<close>

record GridLedBuffer =
  width :: int
  height :: int
  levels :: "uint8_t list"
  dirtyMask :: uint8_t

text \<open>The constructor \<open>GridLedBuffer(width, height)\<close>; it does not check its arguments.\<close>

definition GridLedBuffer_new :: "int \<Rightarrow> int \<Rightarrow> GridLedBuffer" where
  "GridLedBuffer_new w h = \<lparr>width = w, height = h, levels = replicate 256 0, dirtyMask = 0\<rparr>"

text \<open>
  The array is indexed without a bounds check in the source. Every index
  \<open>y * kMaxWidth + x\<close> the operations compute lies inside it exactly when the buffer is
  at most 16 by 16, which the constructor's callers are expected to ensure; the theorems
  about cells state this as \<open>grid_wf\<close>. (Outside it the C++ behaviour is undefined, and
  the model's list operations are then not meant to describe it.)
\<close>

definition grid_wf :: "GridLedBuffer \<Rightarrow> bool" where
  "grid_wf b = (width b \<le> kMaxWidth \<and> height b \<le> kMaxHeight \<and> length (levels b) = 256)"

definition quadrantIndex :: "int \<Rightarrow> int \<Rightarrow> int" where
  "quadrantIndex qx qy = qy * 2 + qx"

text \<open>\<open>dirtyMask_ |= (1 << quadrantIndex(qx, qy))\<close>: computed on \<open>int\<close>, stored as a byte.\<close>

definition markDirty :: "GridLedBuffer \<Rightarrow> int \<Rightarrow> int \<Rightarrow> GridLedBuffer" where
  "markDirty b x y =
     (let qx = c_div x kQuadrantSize;
          qy = c_div y kQuadrantSize
      in b\<lparr>dirtyMask := word_of_int (uint (dirtyMask b) OR shl1 (quadrantIndex qx qy))\<rparr>)"

text \<open>
  The block that \<open>setLevel\<close>, \<open>fill\<close> and \<open>fillRect\<close> each repeat:
  \<^verbatim>\<open>int idx = y * kMaxWidth + x;
  if (levels_[idx] != clampedLevel) { levels_[idx] = clampedLevel; markDirty(x, y); }\<close>
\<close>

definition writeCell :: "GridLedBuffer \<Rightarrow> int \<Rightarrow> int \<Rightarrow> uint8_t \<Rightarrow> GridLedBuffer" where
  "writeCell b x y clampedLevel =
     (let idx = nat (y * kMaxWidth + x)
      in if levels b ! idx \<noteq> clampedLevel
         then markDirty (b\<lparr>levels := (levels b)[idx := clampedLevel]\<rparr>) x y
         else b)"

definition clampLevel :: "int \<Rightarrow> uint8_t" where
  "clampLevel level = word_of_int (std_clamp level 0 kMaxLevel)"

definition GridLedBuffer_setLevel :: "GridLedBuffer \<Rightarrow> int \<Rightarrow> int \<Rightarrow> int \<Rightarrow> GridLedBuffer" where
  "GridLedBuffer_setLevel b x y level =
     (if x < 0 \<or> x \<ge> width b \<or> y < 0 \<or> y \<ge> height b then b
      else writeCell b x y (clampLevel level))"

definition GridLedBuffer_getLevel :: "GridLedBuffer \<Rightarrow> int \<Rightarrow> int \<Rightarrow> int" where
  "GridLedBuffer_getLevel b x y =
     (if x < 0 \<or> x \<ge> width b \<or> y < 0 \<or> y \<ge> height b then 0
      else uint (levels b ! nat (y * kMaxWidth + x)))"

text \<open>
  \<open>fill\<close>: \<open>for (y = 0; y < height_; ++y) for (x = 0; x < width_; ++x)\<close>. The bounds
  are read once (no write changes them), so the loops carry them as arguments.
\<close>

function fill_cols :: "int \<Rightarrow> int \<Rightarrow> int \<Rightarrow> uint8_t \<Rightarrow> GridLedBuffer \<Rightarrow> GridLedBuffer" where
  "fill_cols x w y c b = (if x < w then fill_cols (x + 1) w y c (writeCell b x y c) else b)"
  by pat_completeness auto
termination
  by (relation "measure (\<lambda>(x, w, y, c, b). nat (w - x))") auto

function fill_rows :: "int \<Rightarrow> int \<Rightarrow> int \<Rightarrow> uint8_t \<Rightarrow> GridLedBuffer \<Rightarrow> GridLedBuffer" where
  "fill_rows y h w c b = (if y < h then fill_rows (y + 1) h w c (fill_cols 0 w y c b) else b)"
  by pat_completeness auto
termination
  by (relation "measure (\<lambda>(y, h, w, c, b). nat (h - y))") auto

definition GridLedBuffer_fill :: "GridLedBuffer \<Rightarrow> int \<Rightarrow> GridLedBuffer" where
  "GridLedBuffer_fill b level = fill_rows 0 (height b) (width b) (clampLevel level) b"

text \<open>
  \<open>fillRect\<close>: \<open>for (y = y0; y < y0 + h && y < height_; ++y)
  for (x = x0; x < x0 + w && x < width_; ++x) if (x >= 0 && y >= 0) ...\<close>.
\<close>

function fillRect_cols ::
  "int \<Rightarrow> int \<Rightarrow> int \<Rightarrow> int \<Rightarrow> uint8_t \<Rightarrow> GridLedBuffer \<Rightarrow> GridLedBuffer" where
  "fillRect_cols x xend wd y c b =
     (if x < xend \<and> x < wd
      then fillRect_cols (x + 1) xend wd y c (if x \<ge> 0 \<and> y \<ge> 0 then writeCell b x y c else b)
      else b)"
  by pat_completeness auto
termination
  by (relation "measure (\<lambda>(x, xend, wd, y, c, b). nat (xend - x))") auto

function fillRect_rows ::
  "int \<Rightarrow> int \<Rightarrow> int \<Rightarrow> int \<Rightarrow> int \<Rightarrow> int \<Rightarrow> uint8_t \<Rightarrow> GridLedBuffer \<Rightarrow> GridLedBuffer" where
  "fillRect_rows y yend ht x0 xend wd c b =
     (if y < yend \<and> y < ht
      then fillRect_rows (y + 1) yend ht x0 xend wd c (fillRect_cols x0 xend wd y c b)
      else b)"
  by pat_completeness auto
termination
  by (relation "measure (\<lambda>(y, yend, ht, x0, xend, wd, c, b). nat (yend - y))") auto

definition GridLedBuffer_fillRect ::
  "GridLedBuffer \<Rightarrow> int \<Rightarrow> int \<Rightarrow> int \<Rightarrow> int \<Rightarrow> int \<Rightarrow> GridLedBuffer" where
  "GridLedBuffer_fillRect b x0 y0 w h level =
     fillRect_rows y0 (y0 + h) (height b) x0 (x0 + w) (width b) (clampLevel level) b"

definition GridLedBuffer_set :: "GridLedBuffer \<Rightarrow> int \<Rightarrow> int \<Rightarrow> bool \<Rightarrow> GridLedBuffer" where
  "GridLedBuffer_set b x y on = GridLedBuffer_setLevel b x y (if on then kMaxLevel else 0)"

definition GridLedBuffer_get :: "GridLedBuffer \<Rightarrow> int \<Rightarrow> int \<Rightarrow> bool" where
  "GridLedBuffer_get b x y = (GridLedBuffer_getLevel b x y > 0)"

definition GridLedBuffer_toggle :: "GridLedBuffer \<Rightarrow> int \<Rightarrow> int \<Rightarrow> GridLedBuffer" where
  "GridLedBuffer_toggle b x y = GridLedBuffer_set b x y (\<not> GridLedBuffer_get b x y)"

definition GridLedBuffer_isDirty :: "GridLedBuffer \<Rightarrow> bool" where
  "GridLedBuffer_isDirty b = (dirtyMask b \<noteq> 0)"

definition GridLedBuffer_clearDirty :: "GridLedBuffer \<Rightarrow> GridLedBuffer" where
  "GridLedBuffer_clearDirty b = b\<lparr>dirtyMask := 0\<rparr>"

definition isQuadrantDirty :: "GridLedBuffer \<Rightarrow> int \<Rightarrow> int \<Rightarrow> bool" where
  "isQuadrantDirty b qx qy = (uint (dirtyMask b) AND shl1 (quadrantIndex qx qy) \<noteq> 0)"

definition GridLedBuffer_clear :: "GridLedBuffer \<Rightarrow> GridLedBuffer" where
  "GridLedBuffer_clear b = GridLedBuffer_fill b 0"

section \<open>ArcRingBuffer (MLArcRingBuffer.h)\<close>

abbreviation (input) kLedCount :: int where "kLedCount \<equiv> 64"

text \<open>The members \<open>levels_\<close> (64 bytes) and \<open>dirty_\<close>.\<close>

record ArcRingBuffer =
  ring_levels :: "uint8_t list"
  dirty :: bool

definition ArcRingBuffer_new :: ArcRingBuffer where
  "ArcRingBuffer_new = \<lparr>ring_levels = replicate 64 0, dirty = False\<rparr>"

definition ring_wf :: "ArcRingBuffer \<Rightarrow> bool" where
  "ring_wf r = (length (ring_levels r) = 64)"

text \<open>
  The block every writer of the ring repeats:
  \<^verbatim>\<open>if (levels_[i] != clampedLevel) { levels_[i] = clampedLevel; dirty_ = true; }\<close>
\<close>

definition writeLed :: "ArcRingBuffer \<Rightarrow> int \<Rightarrow> uint8_t \<Rightarrow> ArcRingBuffer" where
  "writeLed r i clampedLevel =
     (if ring_levels r ! nat i \<noteq> clampedLevel
      then r\<lparr>ring_levels := (ring_levels r)[nat i := clampedLevel], dirty := True\<rparr>
      else r)"

definition ArcRingBuffer_setLevel :: "ArcRingBuffer \<Rightarrow> int \<Rightarrow> int \<Rightarrow> ArcRingBuffer" where
  "ArcRingBuffer_setLevel r led level =
     (if led < 0 \<or> led \<ge> kLedCount then r else writeLed r led (clampLevel level))"

definition ArcRingBuffer_getLevel :: "ArcRingBuffer \<Rightarrow> int \<Rightarrow> int" where
  "ArcRingBuffer_getLevel r led =
     (if led < 0 \<or> led \<ge> kLedCount then 0 else uint (ring_levels r ! nat led))"

text \<open>\<open>for (int i = ...; i < n; ++i)\<close> and \<open>for (int i = ...; i <= e; ++i)\<close> over the block.\<close>

function ring_fill_lt :: "int \<Rightarrow> int \<Rightarrow> uint8_t \<Rightarrow> ArcRingBuffer \<Rightarrow> ArcRingBuffer" where
  "ring_fill_lt i n c r = (if i < n then ring_fill_lt (i + 1) n c (writeLed r i c) else r)"
  by pat_completeness auto
termination
  by (relation "measure (\<lambda>(i, n, c, r). nat (n - i))") auto

function ring_fill_le :: "int \<Rightarrow> int \<Rightarrow> uint8_t \<Rightarrow> ArcRingBuffer \<Rightarrow> ArcRingBuffer" where
  "ring_fill_le i e c r = (if i \<le> e then ring_fill_le (i + 1) e c (writeLed r i c) else r)"
  by pat_completeness auto
termination
  by (relation "measure (\<lambda>(i, e, c, r). nat (e + 1 - i))") auto


definition ArcRingBuffer_fillRange :: "ArcRingBuffer \<Rightarrow> int \<Rightarrow> int \<Rightarrow> int \<Rightarrow> ArcRingBuffer" where
  "ArcRingBuffer_fillRange r start0 end0 level =
     (let clampedLevel = clampLevel level;
          start = c_mod (c_mod start0 kLedCount + kLedCount) kLedCount;
          endLed = c_mod (c_mod end0 kLedCount + kLedCount) kLedCount
      in if start \<le> endLed then ring_fill_le start endLed clampedLevel r
         else ring_fill_le 0 endLed clampedLevel (ring_fill_lt start kLedCount clampedLevel r))"

definition ArcRingBuffer_isDirty :: "ArcRingBuffer \<Rightarrow> bool" where
  "ArcRingBuffer_isDirty r = dirty r"





function position_falloff ::
  "int \<Rightarrow> int \<Rightarrow> int \<Rightarrow> int \<Rightarrow> ArcRingBuffer \<Rightarrow> ArcRingBuffer" where
  "position_falloff i falloff centerLed brightness r =
     (if i \<le> falloff
      then (let dimLevel = c_div (brightness * (falloff - i + 1)) (falloff + 2);
                prevLed = c_mod (centerLed - i + kLedCount) kLedCount;
                nextLed = c_mod (centerLed + i) kLedCount
            in position_falloff (i + 1) falloff centerLed brightness
                 (ArcRingBuffer_setLevel (ArcRingBuffer_setLevel r prevLed dimLevel) nextLed dimLevel))
      else r)"
  by pat_completeness auto
termination
  by (relation "measure (\<lambda>(i, falloff, centerLed, brightness, r). nat (falloff + 1 - i))") auto


section \<open>Sequences of writes to a grid buffer\<close>

text \<open>The writers of \<open>GridLedBuffer\<close> the application can call, and a sequence of calls.\<close>

datatype GridOp =
    OpSetLevel int int int
  | OpFill int
  | OpFillRect int int int int int
  | OpSet int int bool
  | OpToggle int int

fun applyOp :: "GridOp \<Rightarrow> GridLedBuffer \<Rightarrow> GridLedBuffer" where
  "applyOp (OpSetLevel x y level) b = GridLedBuffer_setLevel b x y level"
| "applyOp (OpFill level) b = GridLedBuffer_fill b level"
| "applyOp (OpFillRect x0 y0 w h level) b = GridLedBuffer_fillRect b x0 y0 w h level"
| "applyOp (OpSet x y on) b = GridLedBuffer_set b x y on"
| "applyOp (OpToggle x y) b = GridLedBuffer_toggle b x y"

fun applyOps :: "GridOp list \<Rightarrow> GridLedBuffer \<Rightarrow> GridLedBuffer" where
  "applyOps [] b = b"
| "applyOps (op # ops) b = applyOps ops (applyOp op b)"

text \<open>
  \<open>changedAt ops b x y\<close>: running \<open>ops\<close> from \<open>b\<close>, some call changes what cell
  \<open>(x, y)\<close> reads, that is, the cell reads differently after that call than before it.
\<close>

fun changedAt :: "GridOp list \<Rightarrow> GridLedBuffer \<Rightarrow> int \<Rightarrow> int \<Rightarrow> bool" where
  "changedAt [] b x y = False"
| "changedAt (op # ops) b x y =
     (GridLedBuffer_getLevel (applyOp op b) x y \<noteq> GridLedBuffer_getLevel b x y
      \<or> changedAt ops (applyOp op b) x y)"

text \<open>
  The invariant of one writer call that stores the level \<open>c\<close>, started with content
  \<open>levels0\<close> and mask \<open>mask0\<close>: every cell holds its old level or \<open>c\<close>, and the mask
  is \<open>mask0\<close> plus exactly the bits of the quadrants holding a cell that differs from
  \<open>levels0\<close>.
\<close>

definition tracks :: "uint8_t \<Rightarrow> uint8_t list \<Rightarrow> uint8_t \<Rightarrow> GridLedBuffer \<Rightarrow> bool" where
  "tracks c levels0 mask0 b =
     (grid_wf b \<and>
      (\<forall>x y. 0 \<le> x \<and> x < width b \<and> 0 \<le> y \<and> y < height b \<longrightarrow>
             levels b ! nat (y * 16 + x) = levels0 ! nat (y * 16 + x)
             \<or> levels b ! nat (y * 16 + x) = c) \<and>
      (\<forall>n. bit (dirtyMask b) n =
             (bit mask0 n \<or>
              (\<exists>x y. 0 \<le> x \<and> x < width b \<and> 0 \<le> y \<and> y < height b \<and>
                     nat (quadrantIndex (x div 8) (y div 8)) = n \<and>
                     levels b ! nat (y * 16 + x) \<noteq> levels0 ! nat (y * 16 + x)))))"
section \<open>MonomeDeviceInfo (MLSerialOsc.h)\<close>

datatype MonomeDeviceType = Unknown | Grid | Arc

text \<open>
  A \<open>TextFragment\<close> is modelled by its text, a \<^typ>\<open>string\<close>; the source's guard
  \<open>type.getText() &&\<close> against a null text is then always true. The fields \<open>id\<close>,
  \<open>type\<close>, \<open>width\<close> and \<open>height\<close> carry the prefix \<open>info_\<close> here.
\<close>

record MonomeDeviceInfo =
  info_id :: string
  info_type :: string
  port :: int
  info_width :: int
  info_height :: int
  encoderCount :: int
  deviceType :: MonomeDeviceType

text \<open>The default member initialisers.\<close>

definition MonomeDeviceInfo_new :: MonomeDeviceInfo where
  "MonomeDeviceInfo_new =
     \<lparr>info_id = [], info_type = [], port = 0, info_width = 0, info_height = 0,
      encoderCount = 0, deviceType = Unknown\<rparr>"

definition isGrid :: "MonomeDeviceInfo \<Rightarrow> bool" where
  "isGrid info = (deviceType info = Grid)"

definition isArc :: "MonomeDeviceInfo \<Rightarrow> bool" where
  "isArc info = (deviceType info = Arc)"

subsection \<open>The C library calls of \<open>parseType\<close>\<close>

text \<open>\<open>needle\<close> is an initial segment of \<open>s\<close>.\<close>

fun starts_with :: "string \<Rightarrow> string \<Rightarrow> bool" where
  "starts_with s [] = True"
| "starts_with [] (n # ns) = False"
| "starts_with (c # cs) (n # ns) = (c = n \<and> starts_with cs ns)"

text \<open>
  \<open>strstr(s, needle)\<close>: the rest of \<open>s\<close> from the first occurrence of \<open>needle\<close> on, or
  \<open>None\<close> for the null pointer.
\<close>

fun strstr :: "string \<Rightarrow> string \<Rightarrow> string option" where
  "strstr [] needle = (if needle = [] then Some [] else None)"
| "strstr (c # cs) needle =
     (if starts_with (c # cs) needle then Some (c # cs) else strstr cs needle)"

text \<open>"The string \<open>s\<close> contains \<open>needle\<close>", as a specification (not computed).\<close>

definition occurs_in :: "string \<Rightarrow> string \<Rightarrow> bool" where
  "occurs_in needle s = (\<exists>pre post. s = pre @ needle @ post)"

text \<open>The white space of \<open>isspace\<close> in the C locale: space, \<open>\t \n \v \f \r\<close>.\<close>

definition isspace :: "char \<Rightarrow> bool" where
  "isspace c = (c \<in> set [CHR '' '', CHR 0x09, CHR 0x0A, CHR 0x0B, CHR 0x0C, CHR 0x0D])"

definition isdigit :: "char \<Rightarrow> bool" where
  "isdigit c = (c \<in> set ''0123456789'')"

definition digit_value :: "char \<Rightarrow> int" where
  "digit_value c = int (of_char c) - 48"

definition decimal :: "string \<Rightarrow> int" where
  "decimal ds = foldl (\<lambda>a c. a * 10 + digit_value c) 0 ds"

text \<open>
  The value \<open>%d\<close> stores for a number that does not fit an \<open>int\<close> is not fixed by the
  C standard; it is the parameter \<open>ovf\<close> of the model.
\<close>

definition int_conv :: "(int \<Rightarrow> int) \<Rightarrow> int \<Rightarrow> int" where
  "int_conv ovf n = (if - 2147483648 \<le> n \<and> n \<le> 2147483647 then n else ovf n)"

text \<open>
  The conversion \<open>%d\<close>: skip white space, read an optional sign and then decimal digits,
  at least one. \<open>None\<close> when nothing is converted.
\<close>

definition scan_d :: "(int \<Rightarrow> int) \<Rightarrow> string \<Rightarrow> int option" where
  "scan_d ovf s =
     (let t = dropWhile isspace s;
          neg = (t \<noteq> [] \<and> hd t = CHR ''-'');
          u = (if t \<noteq> [] \<and> (hd t = CHR ''-'' \<or> hd t = CHR ''+'') then tl t else t);
          ds = takeWhile isdigit u
      in if ds = [] then None
         else Some (int_conv ovf (if neg then - decimal ds else decimal ds)))"

text \<open>
  \<open>sscanf(s, "arc %d", &count)\<close>: the letters must match, the blank of the format
  matches any amount of white space (none included), then \<open>%d\<close>. \<open>Some count\<close> is the
  return value 1; \<open>None\<close> covers the return values 0 and \<open>EOF\<close>.
\<close>

definition sscanf_arc_d :: "(int \<Rightarrow> int) \<Rightarrow> string \<Rightarrow> int option" where
  "sscanf_arc_d ovf s =
     (if starts_with s ''arc'' then scan_d ovf (dropWhile isspace (drop 3 s)) else None)"

subsection \<open>\<open>MonomeDeviceInfo::parseType\<close>\<close>

definition parseType :: "(int \<Rightarrow> int) \<Rightarrow> MonomeDeviceInfo \<Rightarrow> MonomeDeviceInfo" where
  "parseType ovf info =
     (case strstr (info_type info) ''arc'' of
        Some arcStr \<Rightarrow>
          (case sscanf_arc_d ovf arcStr of
             Some count \<Rightarrow> info\<lparr>deviceType := Arc, encoderCount := count\<rparr>
           | None \<Rightarrow> info\<lparr>deviceType := Arc, encoderCount := 4\<rparr>)
      | None \<Rightarrow>
          (case strstr (info_type info) ''monome'' of
             Some grid \<Rightarrow> info\<lparr>deviceType := Grid\<rparr>
           | None \<Rightarrow> info))"

section \<open>MonomeDevice (MLMonomeDevice.h, MLMonomeDevice.cpp)\<close>

text \<open>An OSC message as \<open>OSCMessageBuilder\<close> assembles it: the address and the arguments.\<close>

datatype OSCArg = OSCInt int | OSCString string

type_synonym OSCMessage = "string \<times> OSCArg list"

text \<open>
  Modelled from the spec: \<open>OSCSender\<close> and \<open>OSCReceiver\<close> (MLOSCSender.h and
  MLOSCReceiver.h are not under src/) are the UDP send and receive endpoints, external
  collaborators of the device. A socket is open or closed; \<open>open\<close> succeeds or fails as
  the operating system decides, and a failed \<open>open\<close> leaves the socket closed. The
  outcomes of \<open>open\<close>, and of the test bind of \<open>findAvailablePort\<close>, are the parameter
  \<open>Net\<close>. \<open>sent\<close> lists, oldest first, the messages handed to the sender by
  \<open>OSCMessageBuilder::sendTo\<close>: these are the wire commands an operation emits.
\<close>

record Net =
  sender_opens :: "string \<Rightarrow> int \<Rightarrow> bool"
  receiver_opens :: "int \<Rightarrow> bool"
  port_available :: "int \<Rightarrow> bool"

record OSCSender =
  sender_open :: bool
  sent :: "OSCMessage list"

definition sendTo :: "OSCMessage \<Rightarrow> OSCSender \<Rightarrow> OSCSender" where
  "sendTo msg s = s\<lparr>sent := sent s @ [msg]\<rparr>"

definition OSCSender_open :: "Net \<Rightarrow> OSCSender \<Rightarrow> string \<Rightarrow> int \<Rightarrow> bool \<times> OSCSender" where
  "OSCSender_open net s h p =
     (if sender_opens net h p then (True, s\<lparr>sender_open := True\<rparr>)
      else (False, s\<lparr>sender_open := False\<rparr>))"

definition OSCSender_close :: "OSCSender \<Rightarrow> OSCSender" where
  "OSCSender_close s = s\<lparr>sender_open := False\<rparr>"

text \<open>
  The members of \<open>MonomeDevice\<close>. A \<open>Path\<close> is the list of its symbols, the empty list
  being the path that tests false. \<open>receiver_open\<close> is all of the receiver that matters
  here, \<open>started\<close> the actor's timer (\<open>Actor::start\<close>).
\<close>

type_synonym Path = "string list"

record MonomeDevice =
  info :: MonomeDeviceInfo
  sender :: OSCSender
  receiver_open :: bool
  prefix :: string
  rotation :: int
  connected :: bool
  host :: string
  localPort :: int
  listenerActorPath :: Path
  started :: bool

abbreviation (input) kDefaultMonomePrefix :: string where "kDefaultMonomePrefix \<equiv> ''/monome''"

definition MonomeDevice_new :: "MonomeDeviceInfo \<Rightarrow> MonomeDevice" where
  "MonomeDevice_new i =
     \<lparr>info = i, sender = \<lparr>sender_open = False, sent = []\<rparr>, receiver_open = False,
      prefix = kDefaultMonomePrefix, rotation = 0, connected = False, host = [],
      localPort = 0, listenerActorPath = [], started = False\<rparr>"

definition send :: "OSCMessage \<Rightarrow> 'a MonomeDevice_scheme \<Rightarrow> 'a MonomeDevice_scheme" where
  "send msg d = d\<lparr>sender := sendTo msg (sender d)\<rparr>"

definition setPrefix :: "'a MonomeDevice_scheme \<Rightarrow> string \<Rightarrow> 'a MonomeDevice_scheme" where
  "setPrefix d p =
     (let d1 = d\<lparr>prefix := p\<rparr>
      in if sender_open (sender d1) then send (''/sys/prefix'', [OSCString p]) d1 else d1)"

text \<open>\<open>rotation = ((rotation / 90) % 4) * 90\<close>, with the division and remainder of C++.\<close>

definition setRotation :: "'a MonomeDevice_scheme \<Rightarrow> int \<Rightarrow> 'a MonomeDevice_scheme" where
  "setRotation d rotation0 =
     (let rot = c_mod (c_div rotation0 90) 4 * 90;
          d1 = d\<lparr>rotation := rot\<rparr>
      in if sender_open (sender d1) then send (''/sys/rotation'', [OSCInt rot]) d1 else d1)"

definition setListenerActor :: "'a MonomeDevice_scheme \<Rightarrow> Path \<Rightarrow> 'a MonomeDevice_scheme" where
  "setListenerActor d actorPath = d\<lparr>listenerActorPath := actorPath\<rparr>"

definition queryInfo :: "'a MonomeDevice_scheme \<Rightarrow> 'a MonomeDevice_scheme" where
  "queryInfo d =
     (if sender_open (sender d)
      then send (''/sys/info'', [OSCString (host d), OSCInt (localPort d)]) d
      else d)"

text \<open>\<open>connect\<close> returns its \<open>bool\<close> together with the device as it leaves it.\<close>

definition connect ::
  "Net \<Rightarrow> 'a MonomeDevice_scheme \<Rightarrow> string \<Rightarrow> int \<Rightarrow> bool \<times> 'a MonomeDevice_scheme" where
  "connect net d h lp =
     (if connected d then (True, d)
      else
        let d1 = d\<lparr>host := h, localPort := lp\<rparr>;
            (ok_s, s1) = OSCSender_open net (sender d1) h (port (info d1));
            d2 = d1\<lparr>sender := s1\<rparr>
        in if \<not> ok_s then (False, d2)
           else if \<not> receiver_opens net lp
             then (False, d2\<lparr>receiver_open := False, sender := OSCSender_close (sender d2)\<rparr>)
             else
               let d3 = d2\<lparr>receiver_open := True\<rparr>;
                   d4 = send (''/sys/host'', [OSCString h]) d3;
                   d5 = send (''/sys/port'', [OSCInt lp]) d4;
                   d6 = setPrefix d5 (prefix d5);
                   d7 = queryInfo d6;
                   d8 = d7\<lparr>connected := True\<rparr>
               in (True, d8\<lparr>started := True\<rparr>))"

definition disconnect :: "'a MonomeDevice_scheme \<Rightarrow> 'a MonomeDevice_scheme" where
  "disconnect d =
     (if \<not> connected d then d
      else d\<lparr>receiver_open := False, sender := OSCSender_close (sender d), connected := False\<rparr>)"

text \<open>
  Modelled from the spec: \<open>Value\<close> (MLValue.h is not under src/) is the typed argument
  of a message. Only integers and texts are told apart here; what \<open>getIntValue\<close> and
  \<open>getTextValue\<close> return for a value of another kind is the parameter \<open>Conv\<close>.
\<close>

datatype Value = IntValue int | TextValue string | OtherValue nat

record Conv =
  int_of_other :: "Value \<Rightarrow> int"
  text_of_other :: "Value \<Rightarrow> string"

definition getIntValue :: "Conv \<Rightarrow> Value \<Rightarrow> int" where
  "getIntValue cv v = (case v of IntValue i \<Rightarrow> i | _ \<Rightarrow> int_of_other cv v)"

definition getTextValue :: "Conv \<Rightarrow> Value \<Rightarrow> string" where
  "getTextValue cv v = (case v of TextValue t \<Rightarrow> t | _ \<Rightarrow> text_of_other cv v)"

text \<open>
  \<open>MonomeDevice::handleSysMessage\<close>. \<open>args[0]\<close> and \<open>args[1]\<close> are read only behind the
  size checks of the source.
\<close>

definition MonomeDevice_handleSysMessage ::
  "Conv \<Rightarrow> 'a MonomeDevice_scheme \<Rightarrow> Path \<Rightarrow> Value list \<Rightarrow> 'a MonomeDevice_scheme" where
  "MonomeDevice_handleSysMessage cv d address args =
     (if length address < 2 then d
      else
        let prop = address ! 1
        in if prop = ''id'' \<and> args \<noteq> []
             then d\<lparr>info := (info d)\<lparr>info_id := getTextValue cv (args ! 0)\<rparr>\<rparr>
           else if prop = ''size'' \<and> length args \<ge> 2
             then d\<lparr>info := (info d)\<lparr>info_width := getIntValue cv (args ! 0),
                                      info_height := getIntValue cv (args ! 1)\<rparr>\<rparr>
           else if prop = ''prefix'' \<and> args \<noteq> []
             then d\<lparr>prefix := getTextValue cv (args ! 0)\<rparr>
           else if prop = ''rotation'' \<and> args \<noteq> []
             then d\<lparr>rotation := getIntValue cv (args ! 0)\<rparr>
           else d)"

section \<open>MonomeGrid (MLMonomeGrid.h, MLMonomeGrid.cpp)\<close>

record MonomeGrid = MonomeDevice +
  ledBuffer :: GridLedBuffer

definition MonomeGrid_new :: "MonomeDeviceInfo \<Rightarrow> MonomeGrid" where
  "MonomeGrid_new i =
     \<lparr>info = i, sender = \<lparr>sender_open = False, sent = []\<rparr>, receiver_open = False,
      prefix = kDefaultMonomePrefix, rotation = 0, connected = False, host = [],
      localPort = 0, listenerActorPath = [], started = False,
      ledBuffer = GridLedBuffer_new (if info_width i > 0 then info_width i else 16)
                                    (if info_height i > 0 then info_height i else 8)\<rparr>"

definition prefixedAddress :: "'a MonomeDevice_scheme \<Rightarrow> string \<Rightarrow> string" where
  "prefixedAddress d sfx = prefix d @ sfx"

text \<open>
  \<open>getDirtyQuadrants\<close>: \<open>for (qy = 0; qy < numQuadsY; ++qy) for (qx = 0; qx < numQuadsX; ++qx)\<close>,
  appending the dirty ones; the loops are the comprehension over \<open>[0..n - 1]\<close>.
\<close>

definition numQuadsX :: "GridLedBuffer \<Rightarrow> int" where
  "numQuadsX b = c_div (width b + kQuadrantSize - 1) kQuadrantSize"

definition numQuadsY :: "GridLedBuffer \<Rightarrow> int" where
  "numQuadsY b = c_div (height b + kQuadrantSize - 1) kQuadrantSize"

definition getDirtyQuadrants :: "GridLedBuffer \<Rightarrow> (int \<times> int) list" where
  "getDirtyQuadrants b =
     concat (map (\<lambda>qy. concat (map (\<lambda>qx. if isQuadrantDirty b qx qy then [(qx, qy)] else [])
                                  [0..numQuadsX b - 1]))
                 [0..numQuadsY b - 1])"

text \<open>
  \<open>getQuadrantLevels\<close>: entry \<open>row * 8 + col\<close> of the zero-initialised result is the level
  of cell \<open>(xOffset + col, yOffset + row)\<close> when that cell is inside the buffer.
\<close>

definition getQuadrantLevels :: "GridLedBuffer \<Rightarrow> int \<Rightarrow> int \<Rightarrow> uint8_t list" where
  "getQuadrantLevels b qx qy =
     map (\<lambda>i. let row = i div kQuadrantSize;
                  col = i mod kQuadrantSize;
                  x = qx * kQuadrantSize + col;
                  y = qy * kQuadrantSize + row
              in if x < width b \<and> y < height b then levels b ! nat (y * kMaxWidth + x) else 0)
         [0..63]"


definition ledLevelMap :: "MonomeGrid \<Rightarrow> int \<Rightarrow> int \<Rightarrow> uint8_t list \<Rightarrow> MonomeGrid" where
  "ledLevelMap g xOffset yOffset lv =
     send (prefixedAddress g ''/grid/led/level/map'',
           OSCInt xOffset # OSCInt yOffset # map (\<lambda>i. OSCInt (uint (lv ! i))) [0..<64]) g"


text \<open>
  \<open>flushLedBufferLevels\<close> and \<open>flushLedBufferBinary\<close>. The list of dirty quadrants is
  taken once, before the loop; the sends do not touch the buffer.
\<close>

definition flushLedBufferLevels :: "MonomeGrid \<Rightarrow> MonomeGrid" where
  "flushLedBufferLevels g =
     (if \<not> GridLedBuffer_isDirty (ledBuffer g) then g
      else
        let dirtyQuadrants = getDirtyQuadrants (ledBuffer g);
            g1 = fold (\<lambda>(qx, qy) g'. ledLevelMap g' (qx * 8) (qy * 8)
                                        (getQuadrantLevels (ledBuffer g') qx qy))
                      dirtyQuadrants g
        in g1\<lparr>ledBuffer := GridLedBuffer_clearDirty (ledBuffer g1)\<rparr>)"


definition flushLedBuffer :: "MonomeGrid \<Rightarrow> MonomeGrid" where
  "flushLedBuffer g = flushLedBufferLevels g"

text \<open>\<open>MonomeGrid::handleSysMessage\<close>: the base class handler, then the resize.\<close>

definition MonomeGrid_handleSysMessage ::
  "Conv \<Rightarrow> MonomeGrid \<Rightarrow> Path \<Rightarrow> Value list \<Rightarrow> MonomeGrid" where
  "MonomeGrid_handleSysMessage cv g address args =
     (let g1 = MonomeDevice_handleSysMessage cv g address args
      in if length address \<ge> 2 \<and> address ! 1 = ''size'' \<and> length args \<ge> 2
         then
           let newWidth = getIntValue cv (args ! 0);
               newHeight = getIntValue cv (args ! 1)
           in if newWidth > 0 \<and> newHeight > 0
              then g1\<lparr>ledBuffer := GridLedBuffer_new newWidth newHeight\<rparr>
              else g1
         else g1)"

section \<open>MonomeArc (MLMonomeArc.h, MLMonomeArc.cpp)\<close>


record MonomeArc = MonomeDevice +
  ringBuffers :: "ArcRingBuffer list"

definition MonomeArc_new :: "MonomeDeviceInfo \<Rightarrow> MonomeArc" where
  "MonomeArc_new i =
     \<lparr>info = i, sender = \<lparr>sender_open = False, sent = []\<rparr>, receiver_open = False,
      prefix = kDefaultMonomePrefix, rotation = 0, connected = False, host = [],
      localPort = 0, listenerActorPath = [], started = False,
      ringBuffers = replicate 4 ArcRingBuffer_new\<rparr>"

definition arc_wf :: "MonomeArc \<Rightarrow> bool" where
  "arc_wf a = (length (ringBuffers a) = 4 \<and> list_all ring_wf (ringBuffers a))"






section \<open>SerialOscService (MLSerialOscService.cpp)\<close>

text \<open>The registry owns devices of either class.\<close>

datatype Device = GridDev MonomeGrid | ArcDev MonomeArc

definition createDevice :: "MonomeDeviceInfo \<Rightarrow> Device option" where
  "createDevice i =
     (if isGrid i then Some (GridDev (MonomeGrid_new i))
      else if isArc i then Some (ArcDev (MonomeArc_new i))
      else None)"

fun Device_setListenerActor :: "Device \<Rightarrow> Path \<Rightarrow> Device" where
  "Device_setListenerActor (GridDev g) p = GridDev (setListenerActor g p)"
| "Device_setListenerActor (ArcDev a) p = ArcDev (setListenerActor a p)"

fun Device_connect :: "Net \<Rightarrow> Device \<Rightarrow> string \<Rightarrow> int \<Rightarrow> bool \<times> Device" where
  "Device_connect net (GridDev g) h lp = (let (ok, g') = connect net g h lp in (ok, GridDev g'))"
| "Device_connect net (ArcDev a) h lp = (let (ok, a') = connect net a h lp in (ok, ArcDev a'))"

fun Device_info :: "Device \<Rightarrow> MonomeDeviceInfo" where
  "Device_info (GridDev g) = info g"
| "Device_info (ArcDev a) = info a"

text \<open>
  Modelled from the spec: the actor runtime (MLActor.h is not under src/) is the
  message-routing collaborator. \<open>registeredActors\<close> lists the paths registered with
  \<open>registerActor\<close>, each with the registry key of its device (\<open>removeActor\<close> takes the
  device); \<open>actorMessages\<close> lists the messages handed to \<open>sendMessageToActor\<close> as
  (target, message path, value); \<open>runtimePath\<close> of a text is taken as the path of that one
  symbol. \<open>callbackCalls\<close> lists the invocations of \<open>deviceCallback_\<close>, which is set when
  \<open>hasDeviceCallback\<close>. Lists are oldest first. The members of the service that the
  add and remove handlers do not use are left out.
\<close>

record SerialOscService =
  devices :: "string \<rightharpoonup> Device"
  svc_host :: string
  nextDevicePort :: int
  svc_listenerActorPath :: Path
  hasDeviceCallback :: bool
  callbackCalls :: "(MonomeDeviceInfo \<times> bool) list"
  registeredActors :: "(Path \<times> string) list"
  actorMessages :: "(Path \<times> Path \<times> string) list"

text \<open>
  \<open>findAvailablePort\<close>: the first port of \<open>startPort, ..., startPort + 99\<close> on which a
  test socket binds, or 0.
\<close>

definition findAvailablePort :: "Net \<Rightarrow> int \<Rightarrow> int" where
  "findAvailablePort net startPort =
     (case List.find (port_available net) [startPort..startPort + 99] of
        Some p \<Rightarrow> p
      | None \<Rightarrow> 0)"

definition handleDeviceAdd ::
  "(int \<Rightarrow> int) \<Rightarrow> Net \<Rightarrow> SerialOscService \<Rightarrow> string \<Rightarrow> string \<Rightarrow> int \<Rightarrow> SerialOscService" where
  "handleDeviceAdd ovf net svc did dtype dport =
     (if devices svc did \<noteq> None then svc
      else
        let i = parseType ovf (MonomeDeviceInfo_new\<lparr>info_id := did, info_type := dtype,
                                                    port := dport\<rparr>)
        in case createDevice i of
             None \<Rightarrow> svc
           | Some device0 \<Rightarrow>
               let device1 = (if svc_listenerActorPath svc \<noteq> []
                              then Device_setListenerActor device0 (svc_listenerActorPath svc)
                              else device0);
                   deviceLocalPort = findAvailablePort net (nextDevicePort svc)
               in if deviceLocalPort = 0 then svc
                  else
                    let svc1 = svc\<lparr>nextDevicePort := deviceLocalPort + 1\<rparr>;
                        (ok, device2) = Device_connect net device1 (svc_host svc1) deviceLocalPort
                    in if \<not> ok then svc1
                       else
                         let svc2 = svc1\<lparr>registeredActors := registeredActors svc1
                                      @ [([''serialosc'', ''devices'', did], did)]\<rparr>;
                             svc3 = svc2\<lparr>devices := (devices svc2)(did \<mapsto> device2)\<rparr>;
                             svc4 = (if hasDeviceCallback svc3
                                     then svc3\<lparr>callbackCalls := callbackCalls svc3 @ [(i, True)]\<rparr>
                                     else svc3)
                         in if svc_listenerActorPath svc4 \<noteq> []
                            then svc4\<lparr>actorMessages := actorMessages svc4
                                   @ [(svc_listenerActorPath svc4,
                                       [''serialosc'', ''device'', ''add''], did)]\<rparr>
                            else svc4)"

definition handleDeviceRemove :: "SerialOscService \<Rightarrow> string \<Rightarrow> SerialOscService" where
  "handleDeviceRemove svc did =
     (case devices svc did of
        None \<Rightarrow> svc
      | Some dev \<Rightarrow>
          let i = MonomeDeviceInfo_new\<lparr>info_id := info_id (Device_info dev),
                                       info_type := info_type (Device_info dev),
                                       deviceType := deviceType (Device_info dev)\<rparr>;
              svc1 = svc\<lparr>registeredActors := filter (\<lambda>(p, k). k \<noteq> did) (registeredActors svc)\<rparr>;
              svc2 = svc1\<lparr>devices := (devices svc1)(did := None)\<rparr>;
              svc3 = (if hasDeviceCallback svc2
                      then svc2\<lparr>callbackCalls := callbackCalls svc2 @ [(i, False)]\<rparr>
                      else svc2)
          in if svc_listenerActorPath svc3 \<noteq> []
             then svc3\<lparr>actorMessages := actorMessages svc3
                    @ [(svc_listenerActorPath svc3, [''serialosc'', ''device'', ''remove''], did)]\<rparr>
             else svc3)"

section \<open>Concrete environments and devices for the examples\<close>

text \<open>A network on which every socket opens and every port is free.\<close>

definition net_all_ok :: Net where
  "net_all_ok = \<lparr>sender_opens = (\<lambda>h p. True), receiver_opens = (\<lambda>p. True),
                 port_available = (\<lambda>p. True)\<rparr>"

text \<open>A network on which the outbound socket cannot be opened.\<close>

definition net_no_sender :: Net where
  "net_no_sender = \<lparr>sender_opens = (\<lambda>h p. False), receiver_opens = (\<lambda>p. True),
                    port_available = (\<lambda>p. True)\<rparr>"

text \<open>A network on which the inbound socket cannot be opened.\<close>

definition net_no_receiver :: Net where
  "net_no_receiver = \<lparr>sender_opens = (\<lambda>h p. True), receiver_opens = (\<lambda>p. False),
                      port_available = (\<lambda>p. True)\<rparr>"

text \<open>A grid advertised by the daemon on port 14001, not yet connected.\<close>

definition grid_info :: MonomeDeviceInfo where
  "grid_info = MonomeDeviceInfo_new\<lparr>info_id := ''m0000123'', info_type := ''monome 128'',
                                     port := 14001, deviceType := Grid\<rparr>"

definition fresh_device :: MonomeDevice where
  "fresh_device = MonomeDevice_new grid_info"

text \<open>A service without devices, with a callback and a listener set.\<close>

definition empty_service :: SerialOscService where
  "empty_service =
     \<lparr>devices = Map.empty, svc_host = ''127.0.0.1'', nextDevicePort = 13100,
      svc_listenerActorPath = [''app''], hasDeviceCallback = True, callbackCalls = [],
      registeredActors = [], actorMessages = []\<rparr>"



section \<open>Basic facts\<close>

lemma clampLevel_uint: "uint (clampLevel l) = std_clamp l 0 15"
  by (simp add: clampLevel_def std_clamp_def uint_word_of_int)

lemma c_div_nonneg: "0 \<le> a \<Longrightarrow> 0 < b \<Longrightarrow> c_div a b = a div b"
  by (simp add: c_div_def)

lemma dirty_bit_test: "0 \<le> i \<Longrightarrow> (uint (w :: uint8_t) AND shl1 i \<noteq> 0) = bit w (nat i)"
  by (auto simp add: shl1_def and_exp_eq_0_iff_not_bit bit_uint_iff dest: bit_imp_le_length)

lemma dirty_bit_set:
  "0 \<le> i \<Longrightarrow> bit (word_of_int (uint (w :: uint8_t) OR shl1 i) :: uint8_t) n
     = (n < 8 \<and> (bit w n \<or> n = nat i))"
  by (auto simp add: shl1_def bit_word_of_int_iff bit_or_iff bit_uint_iff bit_exp_iff
      dest: bit_imp_le_length)

section \<open>setLevel stores the clamped level and marks dirty exactly on a change\<close>

lemma markDirty_levels [simp]: "levels (markDirty b x y) = levels b"
  and markDirty_width [simp]: "width (markDirty b x y) = width b"
  and markDirty_height [simp]: "height (markDirty b x y) = height b"
  by (simp_all add: markDirty_def)

lemma markDirty_bit:
  assumes "0 \<le> x" "0 \<le> y"
  shows "bit (dirtyMask (markDirty b x y)) n
         = (n < 8 \<and> (bit (dirtyMask b) n \<or> n = nat (quadrantIndex (x div 8) (y div 8))))"
proof -
  have "0 \<le> quadrantIndex (x div 8) (y div 8)"
    using assms by (simp add: quadrantIndex_def pos_imp_zdiv_nonneg_iff)
  then show ?thesis
    using assms by (simp add: markDirty_def c_div_nonneg dirty_bit_set)
qed

lemma isQuadrantDirty_bit:
  "0 \<le> quadrantIndex qx qy \<Longrightarrow>
   isQuadrantDirty b qx qy = bit (dirtyMask b) (nat (quadrantIndex qx qy))"
  by (simp add: isQuadrantDirty_def dirty_bit_test)

lemma cell_index_bound:
  "0 \<le> x \<Longrightarrow> x < 16 \<Longrightarrow> 0 \<le> y \<Longrightarrow> y < 16 \<Longrightarrow> nat (y * 16 + x) < 256"
  by linarith

lemma quadrantIndex_cell:
  assumes "0 \<le> x" "x < 16" "0 \<le> y" "y < 16"
  shows "0 \<le> quadrantIndex (x div 8) (y div 8) \<and> quadrantIndex (x div 8) (y div 8) < 4"
proof -
  have "x div 8 \<le> 15 div 8" "y div 8 \<le> 15 div 8"
    using assms by (simp_all add: zdiv_mono1)
  moreover have "0 \<le> x div 8" "0 \<le> y div 8"
    using assms by (simp_all add: pos_imp_zdiv_nonneg_iff)
  ultimately show ?thesis by (simp add: quadrantIndex_def)
qed

lemma isQuadrantDirty_markDirty:
  assumes "0 \<le> x" "x < 16" "0 \<le> y" "y < 16"
  shows "isQuadrantDirty (markDirty b x y) (x div 8) (y div 8)"
proof -
  from quadrantIndex_cell [OF assms]
  have q: "0 \<le> quadrantIndex (x div 8) (y div 8)" "quadrantIndex (x div 8) (y div 8) < 4"
    by simp_all
  then have "nat (quadrantIndex (x div 8) (y div 8)) < 8" by linarith
  then show ?thesis
    using assms q by (simp add: isQuadrantDirty_bit markDirty_bit)
qed

lemma uint_eq_clamp: "(uint (w :: uint8_t) = std_clamp L 0 15) = (w = clampLevel L)"
  by (metis clampLevel_uint clampLevel_def word_of_int_uint)

lemma setLevel_grid:
  assumes "grid_wf b" "0 \<le> x" "x < width b" "0 \<le> y" "y < height b"
  shows "GridLedBuffer_getLevel (GridLedBuffer_setLevel b x y L) x y = std_clamp L 0 15
     \<and> (GridLedBuffer_getLevel b x y = std_clamp L 0 15 \<longrightarrow> GridLedBuffer_setLevel b x y L = b)
     \<and> (GridLedBuffer_getLevel b x y \<noteq> std_clamp L 0 15 \<longrightarrow>
          isQuadrantDirty (GridLedBuffer_setLevel b x y L) (x div 8) (y div 8)
          \<and> GridLedBuffer_isDirty (GridLedBuffer_setLevel b x y L)
          \<and> dirtyMask (GridLedBuffer_setLevel b x y L)
              = dirtyMask b OR push_bit (nat (quadrantIndex (x div 8) (y div 8))) 1)"
proof -
  have xy: "x < 16" "y < 16" using assms by (simp_all add: grid_wf_def)
  have len: "nat (y * 16 + x) < length (levels b)"
    using assms xy cell_index_bound [of x y] by (simp add: grid_wf_def)
  have q: "0 \<le> quadrantIndex (x div 8) (y div 8)" "quadrantIndex (x div 8) (y div 8) < 4"
    using quadrantIndex_cell [of x y] assms xy by simp_all
  have mask: "dirtyMask (markDirty b' x y)
              = dirtyMask b' OR push_bit (nat (quadrantIndex (x div 8) (y div 8))) 1" for b'
    using assms q
    by (intro bit_word_eqI) (auto simp add: markDirty_bit bit_or_iff bit_exp_iff)
  show ?thesis
  proof (cases "levels b ! nat (y * 16 + x) = clampLevel L")
    case True
    then show ?thesis
      using assms by (simp add: GridLedBuffer_getLevel_def GridLedBuffer_setLevel_def
          writeCell_def uint_eq_clamp clampLevel_uint)
  next
    case False
    have d: "isQuadrantDirty (markDirty b' x y) (x div 8) (y div 8)" for b'
      using isQuadrantDirty_markDirty assms xy by simp
    have nz: "dirtyMask (markDirty b' x y) \<noteq> 0" for b'
      using d [of b'] by (auto simp add: isQuadrantDirty_def)
    have "dirtyMask (GridLedBuffer_setLevel b x y L)
            = dirtyMask b OR push_bit (nat (quadrantIndex (x div 8) (y div 8))) 1"
      using assms False by (simp add: GridLedBuffer_setLevel_def writeCell_def mask)
    moreover have "GridLedBuffer_getLevel (GridLedBuffer_setLevel b x y L) x y = std_clamp L 0 15
        \<and> GridLedBuffer_getLevel b x y \<noteq> std_clamp L 0 15
        \<and> isQuadrantDirty (GridLedBuffer_setLevel b x y L) (x div 8) (y div 8)
        \<and> GridLedBuffer_isDirty (GridLedBuffer_setLevel b x y L)"
      using assms False len
      by (simp add: GridLedBuffer_getLevel_def GridLedBuffer_setLevel_def writeCell_def
          uint_eq_clamp clampLevel_uint d nz GridLedBuffer_isDirty_def)
    ultimately show ?thesis by simp
  qed
qed

lemma setLevel_ring:
  assumes "ring_wf r" "0 \<le> led" "led < 64"
  shows "ArcRingBuffer_getLevel (ArcRingBuffer_setLevel r led L) led = std_clamp L 0 15
     \<and> (ArcRingBuffer_getLevel r led = std_clamp L 0 15 \<longrightarrow> ArcRingBuffer_setLevel r led L = r)
     \<and> (ArcRingBuffer_getLevel r led \<noteq> std_clamp L 0 15 \<longrightarrow>
          ArcRingBuffer_isDirty (ArcRingBuffer_setLevel r led L)
          \<and> dirty (ArcRingBuffer_setLevel r led L))"
  using assms
  by (simp add: ArcRingBuffer_getLevel_def ArcRingBuffer_setLevel_def writeLed_def
      uint_eq_clamp clampLevel_uint ring_wf_def ArcRingBuffer_isDirty_def)

text \<open>
  C2 (grid and ring). For a coordinate inside the buffer and any level \<open>L\<close>,
  \<open>setLevel\<close> stores \<open>clamp(L, 0, 15)\<close>. If the clamped level is the stored one, the
  buffer, dirty state included, is unchanged; otherwise the quadrant of the cell (the
  whole ring for an arc) is dirty afterwards, the dirty mask being the old one with that
  quadrant's bit set.
\<close>

theorem setLevel_clamps_and_marks:
  assumes "grid_wf b" "0 \<le> x" "x < width b" "0 \<le> y" "y < height b"
    and "ring_wf r" "0 \<le> led" "led < kLedCount"
  shows "GridLedBuffer_getLevel (GridLedBuffer_setLevel b x y L) x y = std_clamp L 0 15
     \<and> (GridLedBuffer_getLevel b x y = std_clamp L 0 15 \<longrightarrow> GridLedBuffer_setLevel b x y L = b)
     \<and> (GridLedBuffer_getLevel b x y \<noteq> std_clamp L 0 15 \<longrightarrow>
          isQuadrantDirty (GridLedBuffer_setLevel b x y L) (x div 8) (y div 8)
          \<and> GridLedBuffer_isDirty (GridLedBuffer_setLevel b x y L)
          \<and> dirtyMask (GridLedBuffer_setLevel b x y L)
              = dirtyMask b OR push_bit (nat (quadrantIndex (x div 8) (y div 8))) 1)
     \<and> ArcRingBuffer_getLevel (ArcRingBuffer_setLevel r led L) led = std_clamp L 0 15
     \<and> (ArcRingBuffer_getLevel r led = std_clamp L 0 15 \<longrightarrow> ArcRingBuffer_setLevel r led L = r)
     \<and> (ArcRingBuffer_getLevel r led \<noteq> std_clamp L 0 15 \<longrightarrow>
          ArcRingBuffer_isDirty (ArcRingBuffer_setLevel r led L)
          \<and> dirty (ArcRingBuffer_setLevel r led L))"
  using setLevel_grid [OF assms(1-5), of L] setLevel_ring [OF assms(6-8), of L] by blast

theorem setLevel_clamps_and_marks_witness:
  "GridLedBuffer_getLevel (GridLedBuffer_setLevel (GridLedBuffer_new 16 8) 3 4 20) 3 4 = 15
   \<and> isQuadrantDirty (GridLedBuffer_setLevel (GridLedBuffer_new 16 8) 3 4 20) 0 0
   \<and> dirtyMask (GridLedBuffer_setLevel (GridLedBuffer_new 16 8) 3 4 20) = 1
   \<and> GridLedBuffer_setLevel (GridLedBuffer_new 16 8) 3 4 (-5) = GridLedBuffer_new 16 8
   \<and> ArcRingBuffer_getLevel (ArcRingBuffer_setLevel ArcRingBuffer_new 10 20) 10 = 15
   \<and> dirty (ArcRingBuffer_setLevel ArcRingBuffer_new 10 20)
   \<and> ArcRingBuffer_setLevel ArcRingBuffer_new 10 (-5) = ArcRingBuffer_new"
  using setLevel_clamps_and_marks [of "GridLedBuffer_new 16 8" 3 4 ArcRingBuffer_new 10 20]
    setLevel_clamps_and_marks [of "GridLedBuffer_new 16 8" 3 4 ArcRingBuffer_new 10 "-5"]
  by (simp add: grid_wf_def ring_wf_def GridLedBuffer_new_def ArcRingBuffer_new_def
      GridLedBuffer_getLevel_def ArcRingBuffer_getLevel_def std_clamp_def quadrantIndex_def)

section \<open>The dirty mask records the writes that change a cell\<close>

declare fill_cols.simps [simp del] fill_rows.simps [simp del]
  fillRect_cols.simps [simp del] fillRect_rows.simps [simp del]

lemma cell_index_inj:
  "0 \<le> x \<Longrightarrow> x < 16 \<Longrightarrow> 0 \<le> x' \<Longrightarrow> x' < 16 \<Longrightarrow> 0 \<le> y \<Longrightarrow> 0 \<le> y' \<Longrightarrow>
   nat (y * 16 + x) = nat (y' * 16 + x') \<Longrightarrow> x = x' \<and> y = y'"
proof -
  assume a: "0 \<le> x" "x < 16" "0 \<le> x'" "x' < 16" "0 \<le> y" "0 \<le> y'"
    and "nat (y * 16 + x) = nat (y' * 16 + x')"
  then have e: "y * 16 + x = y' * 16 + x'" by linarith
  have "(y * 16 + x) mod 16 = x" "(y' * 16 + x') mod 16 = x'"
    "(y * 16 + x) div 16 = y" "(y' * 16 + x') div 16 = y'"
    using a by simp_all
  with e show ?thesis by metis
qed

lemma writeCell_unchanged [simp]:
  "width (writeCell b x y c) = width b" "height (writeCell b x y c) = height b"
  "length (levels (writeCell b x y c)) = length (levels b)"
  by (simp_all add: writeCell_def Let_def)


lemma fill_cols_dims:
  "width (fill_cols x w y c b) = width b \<and> height (fill_cols x w y c b) = height b"
  by (induction x w y c b rule: fill_cols.induct) (subst (1 2) fill_cols.simps, simp)

lemma fill_rows_dims:
  "width (fill_rows y h w c b) = width b \<and> height (fill_rows y h w c b) = height b"
  by (induction y h w c b rule: fill_rows.induct)
    (subst (1 2) fill_rows.simps, simp add: fill_cols_dims)

lemma fillRect_cols_dims:
  "width (fillRect_cols x xend wd y c b) = width b
   \<and> height (fillRect_cols x xend wd y c b) = height b"
  by (induction x xend wd y c b rule: fillRect_cols.induct)
    (subst (1 2) fillRect_cols.simps, simp)

lemma fillRect_rows_dims:
  "width (fillRect_rows y yend ht x0 xend wd c b) = width b
   \<and> height (fillRect_rows y yend ht x0 xend wd c b) = height b"
  by (induction y yend ht x0 xend wd c b rule: fillRect_rows.induct)
    (subst (1 2) fillRect_rows.simps, simp add: fillRect_cols_dims)

lemma applyOp_dims: "width (applyOp op b) = width b \<and> height (applyOp op b) = height b"
  by (cases op)
    (simp_all add: GridLedBuffer_setLevel_def GridLedBuffer_fill_def GridLedBuffer_fillRect_def
      GridLedBuffer_set_def GridLedBuffer_toggle_def fill_rows_dims fillRect_rows_dims)


lemma tracks_start: "grid_wf b \<Longrightarrow> tracks c (levels b) (dirtyMask b) b"
  by (simp add: tracks_def)

lemma writeCell_changed:
  assumes "levels b ! nat (y * 16 + x) \<noteq> c"
  shows "levels (writeCell b x y c) = (levels b)[nat (y * 16 + x) := c]"
    and "dirtyMask (writeCell b x y c) = dirtyMask (markDirty b x y)"
  using assms by (simp_all add: writeCell_def Let_def markDirty_def)

lemma writeCell_tracks:
  assumes t: "tracks c l0 m0 b" and r: "0 \<le> x" "x < width b" "0 \<le> y" "y < height b"
  shows "tracks c l0 m0 (writeCell b x y c)"
proof (cases "levels b ! nat (y * 16 + x) = c")
  case True
  then have "writeCell b x y c = b" by (simp add: writeCell_def Let_def)
  then show ?thesis using t by simp
next
  case False
  let ?b' = "writeCell b x y c"
  let ?q = "nat (quadrantIndex (x div 8) (y div 8))"
  from t have wf: "grid_wf b" by (simp add: tracks_def)
  then have xy: "x < 16" "y < 16" using r by (simp_all add: grid_wf_def)
  have len: "nat (y * 16 + x) < length (levels b)"
    using cell_index_bound [of x y] r xy wf by (simp add: grid_wf_def)
  have old: "levels b ! nat (y * 16 + x) = l0 ! nat (y * 16 + x)"
    using t r False unfolding tracks_def by blast
  have lv: "levels ?b' ! nat (y' * 16 + x')
            = (if x' = x \<and> y' = y then c else levels b ! nat (y' * 16 + x'))"
    if "0 \<le> x'" "x' < width b" "0 \<le> y'" "y' < height b" for x' y'
  proof (cases "x' = x \<and> y' = y")
    case True
    then show ?thesis using len by (simp add: writeCell_changed(1) [OF False])
  next
    case False
    have "x' < 16" using that wf by (simp add: grid_wf_def)
    then have "nat (y' * 16 + x') \<noteq> nat (y * 16 + x)"
      using cell_index_inj [of x' x y' y] that r xy False by blast
    then show ?thesis
      using False by (auto simp add: writeCell_changed(1) [OF \<open>levels b ! nat (y * 16 + x) \<noteq> c\<close>])
  qed
  have q: "?q < 8"
    using quadrantIndex_cell [of x y] r xy by linarith
  have mk: "bit (dirtyMask ?b') n = (n < 8 \<and> (bit (dirtyMask b) n \<or> n = ?q))" for n
    using r by (simp add: writeCell_changed(2) [OF False] markDirty_bit)
  have inv: "bit (dirtyMask b) n =
             (bit m0 n \<or>
              (\<exists>x y. 0 \<le> x \<and> x < width b \<and> 0 \<le> y \<and> y < height b \<and>
                     nat (quadrantIndex (x div 8) (y div 8)) = n \<and>
                     levels b ! nat (y * 16 + x) \<noteq> l0 ! nat (y * 16 + x)))" for n
    using t unfolding tracks_def by blast
  have bits: "bit (dirtyMask ?b') n =
             (bit m0 n \<or>
              (\<exists>x' y'. 0 \<le> x' \<and> x' < width b \<and> 0 \<le> y' \<and> y' < height b \<and>
                     nat (quadrantIndex (x' div 8) (y' div 8)) = n \<and>
                     levels ?b' ! nat (y' * 16 + x') \<noteq> l0 ! nat (y' * 16 + x')))" for n
  proof
    assume "bit (dirtyMask ?b') n"
    then have n8: "n < 8" and d: "bit (dirtyMask b) n \<or> n = ?q" using mk by simp_all
    show "bit m0 n \<or>
              (\<exists>x' y'. 0 \<le> x' \<and> x' < width b \<and> 0 \<le> y' \<and> y' < height b \<and>
                     nat (quadrantIndex (x' div 8) (y' div 8)) = n \<and>
                     levels ?b' ! nat (y' * 16 + x') \<noteq> l0 ! nat (y' * 16 + x'))"
    proof (cases "n = ?q")
      case True
      have "levels ?b' ! nat (y * 16 + x) \<noteq> l0 ! nat (y * 16 + x)"
        using lv [OF r] old False by simp
      then show ?thesis using True r by blast
    next
      case nq: False
      then have "bit (dirtyMask b) n" using d by simp
      then consider "bit m0 n"
        | x' y' where "0 \<le> x'" "x' < width b" "0 \<le> y'" "y' < height b"
            "nat (quadrantIndex (x' div 8) (y' div 8)) = n"
            "levels b ! nat (y' * 16 + x') \<noteq> l0 ! nat (y' * 16 + x')"
        using inv [of n] by blast
      then show ?thesis
      proof cases
        case 1
        then show ?thesis by simp
      next
        case 2
        then have "\<not> (x' = x \<and> y' = y)" using nq by auto
        then have "levels ?b' ! nat (y' * 16 + x') = levels b ! nat (y' * 16 + x')"
          using lv [OF 2(1-4)] by auto
        then show ?thesis using 2 by metis
      qed
    qed
  next
    assume a: "bit m0 n \<or>
              (\<exists>x' y'. 0 \<le> x' \<and> x' < width b \<and> 0 \<le> y' \<and> y' < height b \<and>
                     nat (quadrantIndex (x' div 8) (y' div 8)) = n \<and>
                     levels ?b' ! nat (y' * 16 + x') \<noteq> l0 ! nat (y' * 16 + x'))"
    show "bit (dirtyMask ?b') n"
    proof (cases "bit m0 n")
      case True
      then have "bit (dirtyMask b) n" using inv by simp
      then show ?thesis using mk bit_imp_le_length [of "dirtyMask b" n] by simp
    next
      case False
      then obtain x' y' where c: "0 \<le> x'" "x' < width b" "0 \<le> y'" "y' < height b"
            "nat (quadrantIndex (x' div 8) (y' div 8)) = n"
            "levels ?b' ! nat (y' * 16 + x') \<noteq> l0 ! nat (y' * 16 + x')"
        using a by blast
      show ?thesis
      proof (cases "x' = x \<and> y' = y")
        case True
        then have "n = ?q" using c(5) by simp
        then show ?thesis using mk q by simp
      next
        case False
        then have "levels b ! nat (y' * 16 + x') \<noteq> l0 ! nat (y' * 16 + x')"
          using lv [OF c(1-4)] c(6) by auto
        then have "bit (dirtyMask b) n" using inv [of n] c by blast
        then show ?thesis using mk bit_imp_le_length [of "dirtyMask b" n] by simp
      qed
    qed
  qed
  have cells: "levels ?b' ! nat (y' * 16 + x') = l0 ! nat (y' * 16 + x')
               \<or> levels ?b' ! nat (y' * 16 + x') = c"
    if "0 \<le> x'" "x' < width b" "0 \<le> y'" "y' < height b" for x' y'
  proof -
    have "levels b ! nat (y' * 16 + x') = l0 ! nat (y' * 16 + x')
          \<or> levels b ! nat (y' * 16 + x') = c"
      using t that unfolding tracks_def by blast
    then show ?thesis using lv [OF that] by auto
  qed
  have "grid_wf ?b'" using wf by (simp add: grid_wf_def)
  then show ?thesis
    unfolding tracks_def using cells bits by simp
qed


lemma fill_cols_tracks:
  "tracks c l0 m0 b \<Longrightarrow> 0 \<le> x \<Longrightarrow> w \<le> width b \<Longrightarrow> 0 \<le> y \<Longrightarrow> y < height b \<Longrightarrow>
   tracks c l0 m0 (fill_cols x w y c b)"
proof (induction x w y c b rule: fill_cols.induct)
  case (1 x w y c b)
  show ?case
  proof (cases "x < w")
    case True
    then have "tracks c l0 m0 (writeCell b x y c)"
      using 1 by (intro writeCell_tracks) simp_all
    then show ?thesis
      using 1 True by (subst fill_cols.simps) simp
  next
    case False
    then show ?thesis using 1 by (subst fill_cols.simps) simp
  qed
qed

lemma fill_rows_tracks:
  "tracks c l0 m0 b \<Longrightarrow> 0 \<le> y \<Longrightarrow> h \<le> height b \<Longrightarrow> w \<le> width b \<Longrightarrow>
   tracks c l0 m0 (fill_rows y h w c b)"
proof (induction y h w c b rule: fill_rows.induct)
  case (1 y h w c b)
  show ?case
  proof (cases "y < h")
    case True
    then have "tracks c l0 m0 (fill_cols 0 w y c b)"
      using 1 by (intro fill_cols_tracks) simp_all
    then show ?thesis
      using 1 True by (subst fill_rows.simps) (simp add: fill_cols_dims)
  next
    case False
    then show ?thesis using 1 by (subst fill_rows.simps) simp
  qed
qed

lemma fillRect_cols_tracks:
  "tracks c l0 m0 b \<Longrightarrow> wd \<le> width b \<Longrightarrow> y < height b \<Longrightarrow>
   tracks c l0 m0 (fillRect_cols x xend wd y c b)"
proof (induction x xend wd y c b rule: fillRect_cols.induct)
  case (1 x xend wd y c b)
  show ?case
  proof (cases "x < xend \<and> x < wd")
    case True
    have "tracks c l0 m0 (if x \<ge> 0 \<and> y \<ge> 0 then writeCell b x y c else b)"
      using 1 True by (auto intro: writeCell_tracks)
    then show ?thesis
      using 1 True by (subst fillRect_cols.simps) simp
  next
    case False
    then show ?thesis using 1 by (subst fillRect_cols.simps) auto
  qed
qed

lemma fillRect_rows_tracks:
  "tracks c l0 m0 b \<Longrightarrow> ht \<le> height b \<Longrightarrow> wd \<le> width b \<Longrightarrow>
   tracks c l0 m0 (fillRect_rows y yend ht x0 xend wd c b)"
proof (induction y yend ht x0 xend wd c b rule: fillRect_rows.induct)
  case (1 y yend ht x0 xend wd c b)
  show ?case
  proof (cases "y < yend \<and> y < ht")
    case True
    then have "tracks c l0 m0 (fillRect_cols x0 xend wd y c b)"
      using 1 by (intro fillRect_cols_tracks) simp_all
    then show ?thesis
      using 1 True by (subst fillRect_rows.simps) (simp add: fillRect_cols_dims)
  next
    case False
    then show ?thesis using 1 by (subst fillRect_rows.simps) auto
  qed
qed

lemma setLevel_tracks:
  assumes "grid_wf b"
  shows "tracks (clampLevel l) (levels b) (dirtyMask b) (GridLedBuffer_setLevel b x y l)"
  using assms
  by (auto simp add: GridLedBuffer_setLevel_def intro: writeCell_tracks tracks_start)

lemma applyOp_tracks:
  assumes "grid_wf b"
  shows "\<exists>c. tracks c (levels b) (dirtyMask b) (applyOp op b)"
proof (cases op)
  case (OpFill l)
  then show ?thesis
    using fill_rows_tracks [OF tracks_start [OF assms], of 0 "height b" "width b" "clampLevel l"]
    by (auto simp add: GridLedBuffer_fill_def)
next
  case (OpFillRect x0 y0 w h l)
  then show ?thesis
    using fillRect_rows_tracks [OF tracks_start [OF assms], of "height b" "width b"
        "clampLevel l" y0 "y0 + h" x0 "x0 + w"]
    by (auto simp add: GridLedBuffer_fillRect_def)
qed (auto simp add: GridLedBuffer_set_def GridLedBuffer_toggle_def intro: setLevel_tracks [OF assms])

lemma getLevel_differs:
  assumes "width b' = width b" "height b' = height b"
  shows "(GridLedBuffer_getLevel b' x y \<noteq> GridLedBuffer_getLevel b x y)
         = (0 \<le> x \<and> x < width b \<and> 0 \<le> y \<and> y < height b
            \<and> levels b' ! nat (y * 16 + x) \<noteq> levels b ! nat (y * 16 + x))"
  using assms by (auto simp add: GridLedBuffer_getLevel_def word_uint_eq_iff)

lemma applyOp_wf: "grid_wf b \<Longrightarrow> grid_wf (applyOp op b)"
  using applyOp_tracks [of b op] by (auto simp add: tracks_def)

lemma applyOp_mask:
  assumes "grid_wf b"
  shows "bit (dirtyMask (applyOp op b)) n
         = (bit (dirtyMask b) n
            \<or> (\<exists>x y. nat (quadrantIndex (x div 8) (y div 8)) = n
                   \<and> GridLedBuffer_getLevel (applyOp op b) x y \<noteq> GridLedBuffer_getLevel b x y))"
proof -
  obtain c where t: "tracks c (levels b) (dirtyMask b) (applyOp op b)"
    using applyOp_tracks [OF assms] by blast
  have d: "width (applyOp op b) = width b" "height (applyOp op b) = height b"
    using applyOp_dims [of op b] by simp_all
  have "bit (dirtyMask (applyOp op b)) n =
             (bit (dirtyMask b) n \<or>
              (\<exists>x y. 0 \<le> x \<and> x < width b \<and> 0 \<le> y \<and> y < height b \<and>
                     nat (quadrantIndex (x div 8) (y div 8)) = n \<and>
                     levels (applyOp op b) ! nat (y * 16 + x) \<noteq> levels b ! nat (y * 16 + x)))"
    using t unfolding tracks_def d by blast
  then show ?thesis
    unfolding getLevel_differs [OF d] by blast
qed

lemma applyOps_mask:
  "grid_wf b \<Longrightarrow>
   bit (dirtyMask (applyOps ops b)) n
     = (bit (dirtyMask b) n
        \<or> (\<exists>x y. nat (quadrantIndex (x div 8) (y div 8)) = n \<and> changedAt ops b x y))"
proof (induction ops arbitrary: b)
  case Nil
  then show ?case by simp
next
  case (Cons op ops)
  have "grid_wf (applyOp op b)" using Cons.prems by (rule applyOp_wf)
  from Cons.IH [OF this] applyOp_mask [OF Cons.prems, of op n]
  show ?case by auto
qed

lemma changedAt_in_range:
  "changedAt ops b x y \<Longrightarrow> 0 \<le> x \<and> x < width b \<and> 0 \<le> y \<and> y < height b"
proof (induction ops arbitrary: b)
  case Nil
  then show ?case by simp
next
  case (Cons op ops)
  have d: "width (applyOp op b) = width b" "height (applyOp op b) = height b"
    using applyOp_dims [of op b] by simp_all
  from Cons.prems consider
      "GridLedBuffer_getLevel (applyOp op b) x y \<noteq> GridLedBuffer_getLevel b x y"
    | "changedAt ops (applyOp op b) x y" by auto
  then show ?case
  proof cases
    case 1
    then show ?thesis using getLevel_differs [OF d, of x y] by simp
  next
    case 2
    from Cons.IH [OF this] show ?thesis using d by simp
  qed
qed

lemma differs_changedAt:
  "GridLedBuffer_getLevel (applyOps ops b) x y \<noteq> GridLedBuffer_getLevel b x y \<Longrightarrow>
   changedAt ops b x y"
  by (induction ops arbitrary: b) auto

lemma applyOps_append: "applyOps (ops @ ops') b = applyOps ops' (applyOps ops b)"
  by (induction ops arbitrary: b) simp_all

lemma changedAt_append:
  "changedAt (ops @ ops') b x y = (changedAt ops b x y \<or> changedAt ops' (applyOps ops b) x y)"
  by (induction ops arbitrary: b) auto

lemma quadrant_of_cell:
  assumes "0 \<le> x" "x < 16" "0 \<le> y" "y < 16" "0 \<le> qx" "qx < 2" "0 \<le> qy" "qy < 2"
  shows "(nat (quadrantIndex (x div 8) (y div 8)) = nat (quadrantIndex qx qy))
         = (x div 8 = qx \<and> y div 8 = qy)"
proof -
  have "x div 8 \<le> 15 div 8" "y div 8 \<le> 15 div 8"
    using assms by (simp_all add: zdiv_mono1)
  moreover have "0 \<le> x div 8" "0 \<le> y div 8"
    using assms by (simp_all add: pos_imp_zdiv_nonneg_iff)
  ultimately have "(x div 8 = 0 \<or> x div 8 = 1) \<and> (y div 8 = 0 \<or> y div 8 = 1)
      \<and> (qx = 0 \<or> qx = 1) \<and> (qy = 0 \<or> qy = 1)"
    using assms by auto
  then show ?thesis by (auto simp add: quadrantIndex_def)
qed

lemma mask_zero_iff: "((w :: uint8_t) = 0) = (\<forall>n. \<not> bit w n)"
proof
  assume "w = 0"
  then show "\<forall>n. \<not> bit w n" by simp
next
  assume "\<forall>n. \<not> bit w n"
  then show "w = 0" by (intro bit_eqI) simp
qed

lemma writeCell_same: "levels b ! nat (y * 16 + x) = c \<Longrightarrow> writeCell b x y c = b"
  by (simp add: writeCell_def Let_def)

lemma fill_cols_noop:
  "(\<forall>x'. x \<le> x' \<and> x' < w \<longrightarrow> levels b ! nat (y * 16 + x') = c) \<Longrightarrow> fill_cols x w y c b = b"
proof (induction x w y c b rule: fill_cols.induct)
  case (1 x w y c b)
  show ?case
  proof (cases "x < w")
    case True
    then have "writeCell b x y c = b" using 1(2) by (simp add: writeCell_same)
    then show ?thesis using 1 True by (subst fill_cols.simps) simp
  next
    case False
    then show ?thesis by (subst fill_cols.simps) simp
  qed
qed

lemma fill_rows_noop:
  "(\<forall>x' y'. 0 \<le> x' \<and> x' < w \<and> y \<le> y' \<and> y' < h \<longrightarrow> levels b ! nat (y' * 16 + x') = c) \<Longrightarrow>
   fill_rows y h w c b = b"
proof (induction y h w c b rule: fill_rows.induct)
  case (1 y h w c b)
  show ?case
  proof (cases "y < h")
    case True
    then have "fill_cols 0 w y c b = b" using 1(2) by (intro fill_cols_noop) simp
    then show ?thesis using 1 True by (subst fill_rows.simps) simp
  next
    case False
    then show ?thesis by (subst fill_rows.simps) simp
  qed
qed

lemma fillRect_cols_noop:
  "(\<forall>x'. x \<le> x' \<and> x' < xend \<and> x' < wd \<and> 0 \<le> x' \<and> 0 \<le> y \<longrightarrow>
        levels b ! nat (y * 16 + x') = c) \<Longrightarrow>
   fillRect_cols x xend wd y c b = b"
proof (induction x xend wd y c b rule: fillRect_cols.induct)
  case (1 x xend wd y c b)
  show ?case
  proof (cases "x < xend \<and> x < wd")
    case True
    then have w: "(if x \<ge> 0 \<and> y \<ge> 0 then writeCell b x y c else b) = b"
      using 1(2) by (simp add: writeCell_same)
    have "fillRect_cols (x + 1) xend wd y c b = b"
      using 1(1) [unfolded w, OF True] 1(2) by simp
    then show ?thesis using True w by (subst fillRect_cols.simps) simp
  next
    case False
    then show ?thesis by (subst fillRect_cols.simps) auto
  qed
qed

lemma fillRect_rows_noop:
  "(\<forall>x' y'. 0 \<le> x' \<and> x' < wd \<and> 0 \<le> y' \<and> y' < ht \<longrightarrow> levels b ! nat (y' * 16 + x') = c) \<Longrightarrow>
   fillRect_rows y yend ht x0 xend wd c b = b"
proof (induction y yend ht x0 xend wd c b rule: fillRect_rows.induct)
  case (1 y yend ht x0 xend wd c b)
  show ?case
  proof (cases "y < yend \<and> y < ht")
    case True
    then have "fillRect_cols x0 xend wd y c b = b" using 1(2) by (intro fillRect_cols_noop) simp
    then show ?thesis using 1 True by (subst fillRect_rows.simps) simp
  next
    case False
    then show ?thesis by (subst fillRect_rows.simps) auto
  qed
qed

text \<open>A bulk write of the level every cell already has changes nothing, the mask included.\<close>

lemma fill_noop:
  assumes "\<forall>x y. 0 \<le> x \<and> x < width b \<and> 0 \<le> y \<and> y < height b \<longrightarrow>
             levels b ! nat (y * 16 + x) = clampLevel l"
  shows "GridLedBuffer_fill b l = b" and "GridLedBuffer_fillRect b x0 y0 w h l = b"
  using assms
  by (simp_all add: GridLedBuffer_fill_def GridLedBuffer_fillRect_def fill_rows_noop
      fillRect_rows_noop)

lemma grid_getLevel_setLevel:
  assumes "grid_wf b"
  shows "GridLedBuffer_getLevel (GridLedBuffer_setLevel b x0 y0 l) x y
         = (if x = x0 \<and> y = y0 \<and> 0 \<le> x0 \<and> x0 < width b \<and> 0 \<le> y0 \<and> y0 < height b
            then std_clamp l 0 15 else GridLedBuffer_getLevel b x y)"
proof (cases "0 \<le> x0 \<and> x0 < width b \<and> 0 \<le> y0 \<and> y0 < height b")
  case False
  then show ?thesis by (auto simp add: GridLedBuffer_setLevel_def)
next
  case True
  show ?thesis
  proof (cases "x = x0 \<and> y = y0")
    case same: True
    then show ?thesis using setLevel_grid [OF assms, of x0 y0 l] True by simp
  next
    case False
    show ?thesis
    proof (cases "0 \<le> x \<and> x < width b \<and> 0 \<le> y \<and> y < height b")
      case r: True
      have "x < 16" "x0 < 16" using r True assms by (simp_all add: grid_wf_def)
      then have "nat (y * 16 + x) \<noteq> nat (y0 * 16 + x0)"
        using cell_index_inj [of x x0 y y0] r True False by blast
      then show ?thesis
        using False r True
        by (auto simp add: GridLedBuffer_getLevel_def GridLedBuffer_setLevel_def writeCell_def
            Let_def)
    next
      case False
      then show ?thesis
        using True by (auto simp add: GridLedBuffer_getLevel_def GridLedBuffer_setLevel_def)
    qed
  qed
qed

text \<open>
  C1 (as amended). Take any well-formed grid buffer, clear its dirty state, and run any
  sequence of \<open>setLevel\<close>, \<open>fill\<close>, \<open>fillRect\<close>, \<open>set\<close> and \<open>toggle\<close> calls. A
  quadrant's dirty bit is then set if and only if one of these calls changed the level of
  a cell of that quadrant, and \<open>isDirty\<close> holds if and only if one of them changed any
  cell; so calls that store the level a cell already has set no bit. Hence every cell
  that reads differently from what it read at the clear lies in a dirty quadrant, and a
  bit once set stays set under any later calls, until the next clear. (The converse of
  "differs, hence dirty" is not a property of the code: see the counterexample below.)
\<close>

theorem dirty_bit_tracks_changing_writes:
  assumes "grid_wf b" and "0 \<le> qx" and "qx < 2" and "0 \<le> qy" and "qy < 2"
  shows "isQuadrantDirty (applyOps ops (GridLedBuffer_clearDirty b)) qx qy
           = (\<exists>x y. x div 8 = qx \<and> y div 8 = qy \<and> changedAt ops (GridLedBuffer_clearDirty b) x y)
    \<and> GridLedBuffer_isDirty (applyOps ops (GridLedBuffer_clearDirty b))
           = (\<exists>x y. changedAt ops (GridLedBuffer_clearDirty b) x y)
    \<and> (GridLedBuffer_getLevel (applyOps ops (GridLedBuffer_clearDirty b)) x y
           \<noteq> GridLedBuffer_getLevel b x y
         \<longrightarrow> isQuadrantDirty (applyOps ops (GridLedBuffer_clearDirty b)) (x div 8) (y div 8))
    \<and> (isQuadrantDirty (applyOps ops (GridLedBuffer_clearDirty b)) qx qy
         \<longrightarrow> isQuadrantDirty (applyOps (ops @ later) (GridLedBuffer_clearDirty b)) qx qy)"
proof -
  let ?b0 = "GridLedBuffer_clearDirty b"
  have wf: "grid_wf ?b0" using assms(1) by (simp add: grid_wf_def GridLedBuffer_clearDirty_def)
  have d0: "width ?b0 = width b" "height ?b0 = height b" "dirtyMask ?b0 = 0"
    by (simp_all add: GridLedBuffer_clearDirty_def)
  have bits: "bit (dirtyMask (applyOps os ?b0)) n
     = (\<exists>x y. nat (quadrantIndex (x div 8) (y div 8)) = n \<and> changedAt os ?b0 x y)" for os n
    using applyOps_mask [OF wf, of os n] by (simp add: d0)
  have rng: "0 \<le> x \<and> x < 16 \<and> 0 \<le> y \<and> y < 16" if "changedAt os ?b0 x y" for os x y
    using changedAt_in_range [OF that] assms(1) by (simp add: d0 grid_wf_def)
  have qi: "0 \<le> quadrantIndex qx qy" using assms by (simp add: quadrantIndex_def)
  have quad: "isQuadrantDirty (applyOps os ?b0) qx qy
           = (\<exists>x y. x div 8 = qx \<and> y div 8 = qy \<and> changedAt os ?b0 x y)" for os
  proof -
    have "isQuadrantDirty (applyOps os ?b0) qx qy
          = (\<exists>x y. nat (quadrantIndex (x div 8) (y div 8)) = nat (quadrantIndex qx qy)
                   \<and> changedAt os ?b0 x y)"
      using bits [of os "nat (quadrantIndex qx qy)"] by (simp add: isQuadrantDirty_bit [OF qi])
    also have "\<dots> = (\<exists>x y. x div 8 = qx \<and> y div 8 = qy \<and> changedAt os ?b0 x y)"
      using rng quadrant_of_cell assms(2-5) by (metis (no_types, lifting))
    finally show ?thesis .
  qed
  have any: "GridLedBuffer_isDirty (applyOps ops ?b0) = (\<exists>x y. changedAt ops ?b0 x y)"
  proof -
    have "(dirtyMask (applyOps ops ?b0) \<noteq> 0) = (\<exists>n. bit (dirtyMask (applyOps ops ?b0)) n)"
      by (simp add: mask_zero_iff)
    then show ?thesis
      unfolding GridLedBuffer_isDirty_def bits by blast
  qed
  have diff: "isQuadrantDirty (applyOps ops ?b0) (x div 8) (y div 8)"
    if h: "GridLedBuffer_getLevel (applyOps ops ?b0) x y \<noteq> GridLedBuffer_getLevel b x y"
  proof -
    have "GridLedBuffer_getLevel ?b0 x y = GridLedBuffer_getLevel b x y"
      by (simp add: GridLedBuffer_getLevel_def GridLedBuffer_clearDirty_def)
    then have c: "changedAt ops ?b0 x y" using h differs_changedAt [of ops ?b0 x y] by simp
    from rng [OF c] quadrantIndex_cell [of x y]
    have "0 \<le> quadrantIndex (x div 8) (y div 8)" by simp
    then show ?thesis
      using bits [of ops "nat (quadrantIndex (x div 8) (y div 8))"] c
      by (auto simp add: isQuadrantDirty_bit)
  qed
  have sticky: "isQuadrantDirty (applyOps (ops @ later) ?b0) qx qy"
    if "isQuadrantDirty (applyOps ops ?b0) qx qy"
    using that unfolding quad changedAt_append by blast
  from quad [of ops] any diff sticky show ?thesis by blast
qed

theorem dirty_bit_tracks_changing_writes_witness:
  "isQuadrantDirty (applyOps [OpSetLevel 10 10 5, OpSetLevel 10 10 0]
       (GridLedBuffer_clearDirty (GridLedBuffer_new 16 16))) 1 1
   \<and> \<not> isQuadrantDirty (applyOps [OpSetLevel 10 10 5, OpSetLevel 10 10 0]
       (GridLedBuffer_clearDirty (GridLedBuffer_new 16 16))) 0 0
   \<and> \<not> GridLedBuffer_isDirty
       (applyOps [OpFill 0, OpFillRect 2 2 4 3 0, OpSet 1 1 False, OpSetLevel 0 0 (- 3)]
          (GridLedBuffer_clearDirty (GridLedBuffer_new 16 16)))"
proof -
  let ?b0 = "GridLedBuffer_clearDirty (GridLedBuffer_new 16 16)"
  have e: "?b0 = GridLedBuffer_new 16 16"
    by (simp add: GridLedBuffer_clearDirty_def GridLedBuffer_new_def)
  have wf: "grid_wf (GridLedBuffer_new 16 16)" by (simp add: grid_wf_def GridLedBuffer_new_def)
  have wf1: "grid_wf (GridLedBuffer_setLevel (GridLedBuffer_new 16 16) 10 10 5)"
    using applyOp_wf [OF wf, of "OpSetLevel 10 10 5"] by simp
  have dims: "width (GridLedBuffer_new 16 16) = 16" "height (GridLedBuffer_new 16 16) = 16"
    by (simp_all add: GridLedBuffer_new_def)
  have dims1: "width (GridLedBuffer_setLevel (GridLedBuffer_new 16 16) 10 10 5) = 16"
    "height (GridLedBuffer_setLevel (GridLedBuffer_new 16 16) 10 10 5) = 16"
    using applyOp_dims [of "OpSetLevel 10 10 5" "GridLedBuffer_new 16 16"] dims by simp_all
  have z: "GridLedBuffer_getLevel (GridLedBuffer_new 16 16) x y = 0" for x y
    using cell_index_bound [of x y]
    by (auto simp add: GridLedBuffer_getLevel_def GridLedBuffer_new_def)
  have ch: "changedAt [OpSetLevel 10 10 5, OpSetLevel 10 10 0] (GridLedBuffer_new 16 16) x y
            = (x = 10 \<and> y = 10)" for x y
    by (auto simp add: grid_getLevel_setLevel [OF wf] grid_getLevel_setLevel [OF wf1] z
        dims dims1 std_clamp_def)
  have zero: "levels (GridLedBuffer_new 16 16) ! nat (y * 16 + x) = clampLevel l"
    if "0 \<le> x \<and> x < 16 \<and> 0 \<le> y \<and> y < 16" "l \<le> 0" for x y l
    using that cell_index_bound [of x y]
    by (simp add: GridLedBuffer_new_def clampLevel_def std_clamp_def)
  have n1: "GridLedBuffer_fill (GridLedBuffer_new 16 16) 0 = GridLedBuffer_new 16 16"
    and n2: "GridLedBuffer_fillRect (GridLedBuffer_new 16 16) 2 2 4 3 0 = GridLedBuffer_new 16 16"
    using zero [of _ _ 0] by (intro fill_noop; simp add: GridLedBuffer_new_def)+
  have n3: "GridLedBuffer_setLevel (GridLedBuffer_new 16 16) 1 1 0 = GridLedBuffer_new 16 16"
    and n4: "GridLedBuffer_setLevel (GridLedBuffer_new 16 16) 0 0 (- 3) = GridLedBuffer_new 16 16"
    by (simp_all add: GridLedBuffer_setLevel_def GridLedBuffer_new_def writeCell_def Let_def
        clampLevel_def std_clamp_def)
  have no: "\<not> changedAt [OpFill 0, OpFillRect 2 2 4 3 0, OpSet 1 1 False, OpSetLevel 0 0 (- 3)]
              (GridLedBuffer_new 16 16) x y" for x y
    by (simp add: n1 n2 n3 n4 GridLedBuffer_set_def)
  have one: "(1::int) < 2" "(0::int) \<le> 1" "(0::int) < 2" "(0::int) \<le> 0" by simp_all
  note t11 = dirty_bit_tracks_changing_writes [OF wf one(2) one(1) one(2) one(1),
      of "[OpSetLevel 10 10 5, OpSetLevel 10 10 0]" 0 0 "[]"]
  note t00 = dirty_bit_tracks_changing_writes [OF wf one(4) one(3) one(4) one(3),
      of "[OpSetLevel 10 10 5, OpSetLevel 10 10 0]" 0 0 "[]"]
  note tn = dirty_bit_tracks_changing_writes [OF wf one(4) one(3) one(4) one(3),
      of "[OpFill 0, OpFillRect 2 2 4 3 0, OpSet 1 1 False, OpSetLevel 0 0 (- 3)]" 0 0 "[]"]
  from t11 have a: "isQuadrantDirty (applyOps [OpSetLevel 10 10 5, OpSetLevel 10 10 0] ?b0) 1 1"
    unfolding e ch by simp
  from t00 have b: "\<not> isQuadrantDirty (applyOps [OpSetLevel 10 10 5, OpSetLevel 10 10 0] ?b0) 0 0"
    unfolding e ch by simp
  from tn have c: "\<not> GridLedBuffer_isDirty
       (applyOps [OpFill 0, OpFillRect 2 2 4 3 0, OpSet 1 1 False, OpSetLevel 0 0 (- 3)] ?b0)"
    unfolding e using no by blast
  from a b c show ?thesis by (intro conjI)
qed

text \<open>
  C1 as stated fails in the direction "dirty only if some cell differs": the bits are
  sticky. Writing 5 and then 0 to cell (0,0) of a cleared buffer restores every level,
  and quadrant (0,0) stays dirty.
\<close>

theorem dirty_bit_stays_after_restore_counterexample:
  "dirtyMask (GridLedBuffer_clearDirty (GridLedBuffer_new 16 8)) = 0
   \<and> levels (applyOps [OpSetLevel 0 0 5, OpSetLevel 0 0 0]
               (GridLedBuffer_clearDirty (GridLedBuffer_new 16 8)))
       = levels (GridLedBuffer_clearDirty (GridLedBuffer_new 16 8))
   \<and> isQuadrantDirty (applyOps [OpSetLevel 0 0 5, OpSetLevel 0 0 0]
               (GridLedBuffer_clearDirty (GridLedBuffer_new 16 8))) 0 0"
  by (simp add: GridLedBuffer_new_def GridLedBuffer_clearDirty_def GridLedBuffer_setLevel_def
      writeCell_def clampLevel_def std_clamp_def Let_def markDirty_def c_div_def
      quadrantIndex_def isQuadrantDirty_def shl1_def list_update_same_conv)

section \<open>Range fills of the ring\<close>

declare ring_fill_lt.simps [simp del] ring_fill_le.simps [simp del]

lemma c_mod_wrap: "c_mod (c_mod a 64 + 64) 64 = a mod 64"
proof (cases "a < 0")
  case True
  have "0 \<le> (- a) mod 64" "(- a) mod 64 < 64" by simp_all
  moreover have "(64 - (- a) mod 64) mod 64 = a mod 64"
    by (metis add.inverse_inverse mod_diff_right_eq mod_minus_eq minus_mod_self2 diff_minus_eq_add add.commute mod_add_self1)
  ultimately show ?thesis using True by (simp add: c_mod_def)
next
  case False
  then show ?thesis by (simp add: c_mod_def)
qed

lemma writeLed_levels: "ring_levels (writeLed r i c) = (ring_levels r)[nat i := c]"
  by (simp add: writeLed_def) (metis list_update_id)

lemma writeLed_wf: "ring_wf r \<Longrightarrow> ring_wf (writeLed r i c)"
  by (simp add: ring_wf_def writeLed_levels)

lemma ring_fill_lt_levels:
  "ring_wf r \<Longrightarrow> 0 \<le> i \<Longrightarrow> n \<le> 64 \<Longrightarrow>
   ring_wf (ring_fill_lt i n c r) \<and>
   (\<forall>j. 0 \<le> j \<and> j < 64 \<longrightarrow>
      ring_levels (ring_fill_lt i n c r) ! nat j
        = (if i \<le> j \<and> j < n then c else ring_levels r ! nat j))"
proof (induction i n c r rule: ring_fill_lt.induct)
  case (1 i n c r)
  show ?case
  proof (cases "i < n")
    case True
    have wf: "ring_wf (writeLed r i c)" using 1 by (simp add: writeLed_wf)
    have len: "nat i < length (ring_levels r)" using 1 True by (simp add: ring_wf_def)
    note ih = 1(1) [OF True wf]
    have "\<forall>j. 0 \<le> j \<and> j < 64 \<longrightarrow> (ring_levels r)[nat i := c] ! nat j
          = (if j = i then c else ring_levels r ! nat j)"
      using len 1(3) by (auto simp add: nth_list_update)
    then show ?thesis
      using ih 1 True by (subst (1 2) ring_fill_lt.simps) (auto simp add: writeLed_levels)
  next
    case False
    then show ?thesis using 1 by (subst (1 2) ring_fill_lt.simps) auto
  qed
qed

lemma ring_fill_le_levels:
  "ring_wf r \<Longrightarrow> 0 \<le> i \<Longrightarrow> e < 64 \<Longrightarrow>
   ring_wf (ring_fill_le i e c r) \<and>
   (\<forall>j. 0 \<le> j \<and> j < 64 \<longrightarrow>
      ring_levels (ring_fill_le i e c r) ! nat j
        = (if i \<le> j \<and> j \<le> e then c else ring_levels r ! nat j))"
proof (induction i e c r rule: ring_fill_le.induct)
  case (1 i e c r)
  show ?case
  proof (cases "i \<le> e")
    case True
    have wf: "ring_wf (writeLed r i c)" using 1 by (simp add: writeLed_wf)
    have len: "nat i < length (ring_levels r)" using 1 True by (simp add: ring_wf_def)
    note ih = 1(1) [OF True wf]
    have "\<forall>j. 0 \<le> j \<and> j < 64 \<longrightarrow> (ring_levels r)[nat i := c] ! nat j
          = (if j = i then c else ring_levels r ! nat j)"
      using len 1(3) by (auto simp add: nth_list_update)
    then show ?thesis
      using ih 1 True by (subst (1 2) ring_fill_le.simps) (auto simp add: writeLed_levels)
  next
    case False
    then show ?thesis using 1 by (subst (1 2) ring_fill_le.simps) auto
  qed
qed

lemma fillRange_levels:
  assumes "ring_wf r" "0 \<le> j" "j < 64"
  shows "ring_levels (ArcRingBuffer_fillRange r s e L) ! nat j
     = (if (if s mod 64 \<le> e mod 64 then s mod 64 \<le> j \<and> j \<le> e mod 64
            else s mod 64 \<le> j \<or> j \<le> e mod 64)
        then clampLevel L else ring_levels r ! nat j)"
proof -
  have b: "0 \<le> s mod 64" "s mod 64 < 64" "0 \<le> e mod 64" "e mod 64 < 64" by simp_all
  show ?thesis
  proof (cases "s mod 64 \<le> e mod 64")
    case True
    then show ?thesis
      using assms b ring_fill_le_levels [of r "s mod 64" "e mod 64" "clampLevel L"]
      by (simp add: ArcRingBuffer_fillRange_def c_mod_wrap Let_def)
  next
    case False
    have 1: "ring_wf (ring_fill_lt (s mod 64) 64 (clampLevel L) r)"
      and 2: "ring_levels (ring_fill_lt (s mod 64) 64 (clampLevel L) r) ! nat j
         = (if s mod 64 \<le> j \<and> j < 64 then clampLevel L else ring_levels r ! nat j)"
      using assms b ring_fill_lt_levels [of r "s mod 64" 64 "clampLevel L"] by simp_all
    show ?thesis
      using False assms b 2
        ring_fill_le_levels [OF 1, of 0 "e mod 64" "clampLevel L"]
      by (simp add: ArcRingBuffer_fillRange_def c_mod_wrap Let_def)
  qed
qed

text \<open>
  C4. On a 64-slot ring, \<open>fillRange(s, e, L)\<close> with slot indices \<open>0 \<le> e < s < 64\<close>
  wraps across the 0/63 boundary, both bounds included: the slots \<open>s .. 63\<close> and
  \<open>0 .. e\<close> read \<open>clamp(L, 0, 15)\<close> afterwards, and every other slot reads as before.
  At \<open>fillRange(60, 4, 10)\<close> these are the slots 60, 61, 62, 63, 0, 1, 2, 3, 4 (the witness).
\<close>

theorem fillRange_wraps_around:
  assumes "ring_wf r" and "0 \<le> e" and "e < s" and "s < kLedCount"
  shows "ArcRingBuffer_getLevel (ArcRingBuffer_fillRange r s e L) i
         = (if (s \<le> i \<and> i < kLedCount) \<or> (0 \<le> i \<and> i \<le> e) then std_clamp L 0 15
            else ArcRingBuffer_getLevel r i)"
proof (cases "0 \<le> i \<and> i < 64")
  case True
  then show ?thesis
    using assms fillRange_levels [of r i s e L]
    by (auto simp add: ArcRingBuffer_getLevel_def clampLevel_uint)
next
  case False
  then show ?thesis using assms by (auto simp add: ArcRingBuffer_getLevel_def)
qed

theorem fillRange_wraps_around_witness:
  "\<forall>i. ArcRingBuffer_getLevel (ArcRingBuffer_fillRange ArcRingBuffer_new 60 4 10) i
         = (if i \<in> {60, 61, 62, 63, 0, 1, 2, 3, 4} then 10 else 0)"
proof
  fix i :: int
  have "ring_wf ArcRingBuffer_new" by (simp add: ring_wf_def ArcRingBuffer_new_def)
  from fillRange_wraps_around [OF this, of 4 60 10 i]
  have "ArcRingBuffer_getLevel (ArcRingBuffer_fillRange ArcRingBuffer_new 60 4 10) i
         = (if (60 \<le> i \<and> i < 64) \<or> (0 \<le> i \<and> i \<le> 4) then 10
            else ArcRingBuffer_getLevel ArcRingBuffer_new i)"
    by (simp add: std_clamp_def)
  moreover have "ArcRingBuffer_getLevel ArcRingBuffer_new i = 0"
    by (auto simp add: ArcRingBuffer_getLevel_def ArcRingBuffer_new_def)
  moreover have "((60 \<le> i \<and> i < 64) \<or> (0 \<le> i \<and> i \<le> 4)) = (i \<in> {60, 61, 62, 63, 0, 1, 2, 3, 4})"
    by auto
  ultimately show "ArcRingBuffer_getLevel (ArcRingBuffer_fillRange ArcRingBuffer_new 60 4 10) i
         = (if i \<in> {60, 61, 62, 63, 0, 1, 2, 3, 4} then 10 else 0)"
    by simp
qed

section \<open>The position indicator of the ring\<close>

declare position_falloff.simps [simp del]


lemma ring_setLevel_wf: "ring_wf r \<Longrightarrow> ring_wf (ArcRingBuffer_setLevel r led L)"
  by (simp add: ArcRingBuffer_setLevel_def writeLed_wf)


lemma position_falloff_wf:
  "ring_wf r \<Longrightarrow> ring_wf (position_falloff i f c b r)"
proof (induction i f c b r rule: position_falloff.induct)
  case (1 i f c b r)
  then show ?case
    by (subst position_falloff.simps) (simp add: Let_def ring_setLevel_wf)
qed


















section \<open>Rotation\<close>

lemma rotation_setRotation:
  "rotation (setRotation d v) = c_mod (c_div v 90) 4 * 90"
  by (simp add: setRotation_def Let_def send_def)

lemma setRotation_nonneg:
  assumes "0 \<le> v"
  shows "rotation (setRotation d v) = ((v div 90) mod 4) * 90"
    and "rotation (setRotation d v) \<in> {0, 90, 180, 270}"
proof -
  have q: "0 \<le> v div 90" using assms by (simp add: pos_imp_zdiv_nonneg_iff)
  show e: "rotation (setRotation d v) = ((v div 90) mod 4) * 90"
    using assms q by (simp add: rotation_setRotation c_div_def c_mod_def)
  have "0 \<le> (v div 90) mod 4" "(v div 90) mod 4 < 4" by simp_all
  then have "(v div 90) mod 4 \<in> {0, 1, 2, 3}" by auto
  then show "rotation (setRotation d v) \<in> {0, 90, 180, 270}"
    unfolding e by auto
qed

text \<open>
  C6 holds for every value that is not negative (the lemma above) and fails for
  negative ones, where the remainder of C++ is negative: \<open>setRotation(-90)\<close> stores
  \<open>-90\<close>, which is none of 0, 90, 180, 270.
\<close>

theorem setRotation_negative_quarter_turn:
  "rotation (setRotation d (- 90)) = - 90
   \<and> rotation (setRotation d (- 90)) \<notin> {0, 90, 180, 270}"
  by (simp add: rotation_setRotation c_div_def c_mod_def)

section \<open>Classifying the type string\<close>

lemma starts_with_iff: "starts_with s n = (\<exists>post. s = n @ post)"
  by (induction s n rule: starts_with.induct) auto

lemma strstr_Some:
  "strstr s n = Some t \<Longrightarrow> (\<exists>pre. s = pre @ t) \<and> starts_with t n"
proof (induction s)
  case Nil
  then show ?case by (auto split: if_splits)
next
  case (Cons c cs)
  show ?case
  proof (cases "starts_with (c # cs) n")
    case True
    then show ?thesis using Cons.prems by auto
  next
    case False
    then have "strstr cs n = Some t" using Cons.prems by simp
    from Cons.IH [OF this] show ?thesis by (metis append_Cons)
  qed
qed

lemma strstr_None_iff: "(strstr s n = None) = (\<not> (\<exists>pre post. s = pre @ n @ post))"
proof (induction s)
  case Nil
  then show ?case by auto
next
  case (Cons c cs)
  show ?case
  proof (cases "starts_with (c # cs) n")
    case True
    then obtain post where "c # cs = n @ post" by (auto simp add: starts_with_iff)
    then have "c # cs = [] @ n @ post" by simp
    then have "\<exists>pre post. c # cs = pre @ n @ post" by blast
    then show ?thesis using True by simp
  next
    case False
    have "(\<exists>pre post. c # cs = pre @ n @ post) = (\<exists>pre post. cs = pre @ n @ post)"
    proof
      assume "\<exists>pre post. c # cs = pre @ n @ post"
      then obtain pre post where e: "c # cs = pre @ n @ post" by blast
      show "\<exists>pre post. cs = pre @ n @ post"
      proof (cases pre)
        case Nil
        then have "starts_with (c # cs) n" using e by (auto simp add: starts_with_iff)
        then show ?thesis using False by simp
      next
        case (Cons a pre')
        then have "cs = pre' @ n @ post" using e by simp
        then show ?thesis by blast
      qed
    next
      assume "\<exists>pre post. cs = pre @ n @ post"
      then obtain pre post where "cs = pre @ n @ post" by blast
      then have "c # cs = (c # pre) @ n @ post" by simp
      then show "\<exists>pre post. c # cs = pre @ n @ post" by blast
    qed
    then show ?thesis using False Cons.IH by simp
  qed
qed


lemma takeWhile_digits:
  "list_all isdigit ds \<Longrightarrow> rest = [] \<or> \<not> isdigit (hd rest) \<Longrightarrow> takeWhile isdigit (ds @ rest) = ds"
  by (cases rest) (simp_all add: list_all_iff takeWhile_append2)

lemma decimal_nonneg:
  "0 \<le> a \<Longrightarrow> list_all isdigit xs \<Longrightarrow> 0 \<le> foldl (\<lambda>a c. a * 10 + digit_value c) a xs"
proof (induction xs arbitrary: a)
  case Nil
  then show ?case by simp
next
  case (Cons x xs)
  then have "isdigit x" by simp
  then have "0 \<le> digit_value x" by (auto simp add: isdigit_def digit_value_def)
  then show ?case using Cons by simp
qed

lemma digit_not_space_or_sign:
  "isdigit d \<Longrightarrow> \<not> isspace d \<and> d \<noteq> CHR ''-'' \<and> d \<noteq> CHR ''+''"
  by (auto simp add: isdigit_def isspace_def)

lemma scan_d_number:
  assumes "ds \<noteq> []" "list_all isdigit ds" "rest = [] \<or> \<not> isdigit (hd rest)"
    and "decimal ds \<le> 2147483647"
  shows "scan_d ovf (ds @ rest) = Some (decimal ds)"
proof -
  obtain d ds' where ds: "ds = d # ds'" using assms(1) by (cases ds) auto
  then have dg: "isdigit d" using assms(2) by simp
  note ns = digit_not_space_or_sign [OF dg]
  have tw: "takeWhile isdigit (ds' @ rest) = ds'"
    using takeWhile_digits [OF assms(2,3)] ds dg by simp
  have "0 \<le> decimal ds" using decimal_nonneg [of 0 ds] assms(2) by (simp add: decimal_def)
  then have ic: "int_conv ovf (decimal ds) = decimal ds"
    using assms(4) by (simp add: int_conv_def)
  have dw: "dropWhile isspace (d # ds' @ rest) = d # ds' @ rest" using ns by simp
  show ?thesis
    unfolding scan_d_def ds append_Cons dw Let_def
    using ns ic ds dg tw by simp
qed

lemma sscanf_arc_number:
  assumes "ds \<noteq> []" "list_all isdigit ds" "rest = [] \<or> \<not> isdigit (hd rest)"
    and "decimal ds \<le> 2147483647"
  shows "sscanf_arc_d ovf (''arc '' @ ds @ rest) = Some (decimal ds)"
proof -
  obtain d ds' where ds: "ds = d # ds'" using assms(1) by (cases ds) auto
  then have "isdigit d" using assms(2) by simp
  note ns = digit_not_space_or_sign [OF this]
  have sp: "isspace CHR '' ''" by (simp add: isspace_def)
  have "dropWhile isspace (drop 3 (''arc '' @ ds @ rest)) = ds @ rest"
    using ns sp ds by simp
  then show ?thesis
    using scan_d_number [OF assms, of ovf] by (simp add: sscanf_arc_d_def)
qed

lemma occurs_in_iff: "occurs_in n s = (strstr s n \<noteq> None)"
  using strstr_None_iff [of s n] by (simp add: occurs_in_def)

lemma strstr_first_arc:
  "CHR ''a'' \<notin> set pre \<Longrightarrow> strstr (pre @ ''arc'' @ post) ''arc'' = Some (''arc'' @ post)"
  by (induction pre) auto

lemma parseType_arc:
  assumes "strstr s ''arc'' = Some t"
  shows "deviceType (parseType ovf (MonomeDeviceInfo_new\<lparr>info_type := s\<rparr>)) = Arc"
    and "encoderCount (parseType ovf (MonomeDeviceInfo_new\<lparr>info_type := s\<rparr>))
         = (case sscanf_arc_d ovf t of Some n \<Rightarrow> n | None \<Rightarrow> 4)"
  using assms by (simp_all add: parseType_def split: option.splits)

text \<open>
  C5. \<open>parseType\<close> on a freshly built info with type string \<open>s\<close> (a total function:
  \<open>strstr\<close> and \<open>sscanf\<close> signal nothing, and the model has no error branch).
  If \<open>s\<close> contains "arc", the kind is Arc and the encoder count is what
  \<open>sscanf("arc %d")\<close> reads at the first occurrence of "arc", or 4 when it reads
  nothing; when the first "arc" is followed by a blank and a decimal number that fits an
  \<open>int\<close>, that number is the count. Otherwise, if \<open>s\<close> contains the grid marker
  "monome", the kind is Grid and nothing else changes (width and height stay 0).
  Otherwise the info is unchanged, of kind Unknown. The witness evaluates
  "monome arc 4", "monome 128" and "unknown device".
\<close>

theorem parseType_classifies:
  "(occurs_in ''arc'' s \<longrightarrow>
      deviceType (parseType ovf (MonomeDeviceInfo_new\<lparr>info_type := s\<rparr>)) = Arc
      \<and> (\<exists>before t. s = before @ t \<and> starts_with t ''arc'' \<and> strstr s ''arc'' = Some t
           \<and> encoderCount (parseType ovf (MonomeDeviceInfo_new\<lparr>info_type := s\<rparr>))
               = (case sscanf_arc_d ovf t of Some n \<Rightarrow> n | None \<Rightarrow> 4)))
   \<and> (s = pre @ ''arc '' @ ds @ rest \<and> CHR ''a'' \<notin> set pre \<and> ds \<noteq> [] \<and> list_all isdigit ds
        \<and> (rest = [] \<or> \<not> isdigit (hd rest)) \<and> decimal ds \<le> 2147483647 \<longrightarrow>
      encoderCount (parseType ovf (MonomeDeviceInfo_new\<lparr>info_type := s\<rparr>)) = decimal ds)
   \<and> (\<not> occurs_in ''arc'' s \<and> occurs_in ''monome'' s \<longrightarrow>
      parseType ovf (MonomeDeviceInfo_new\<lparr>info_type := s\<rparr>)
        = MonomeDeviceInfo_new\<lparr>info_type := s, deviceType := Grid\<rparr>
      \<and> deviceType (parseType ovf (MonomeDeviceInfo_new\<lparr>info_type := s\<rparr>)) = Grid
      \<and> info_width (parseType ovf (MonomeDeviceInfo_new\<lparr>info_type := s\<rparr>)) = 0
      \<and> info_height (parseType ovf (MonomeDeviceInfo_new\<lparr>info_type := s\<rparr>)) = 0)
   \<and> (\<not> occurs_in ''arc'' s \<and> \<not> occurs_in ''monome'' s \<longrightarrow>
      parseType ovf (MonomeDeviceInfo_new\<lparr>info_type := s\<rparr>) = MonomeDeviceInfo_new\<lparr>info_type := s\<rparr>
      \<and> deviceType (parseType ovf (MonomeDeviceInfo_new\<lparr>info_type := s\<rparr>)) = Unknown)"
proof (intro conjI impI)
  assume "occurs_in ''arc'' s"
  then obtain t where t: "strstr s ''arc'' = Some t" by (auto simp add: occurs_in_iff)
  show "deviceType (parseType ovf (MonomeDeviceInfo_new\<lparr>info_type := s\<rparr>)) = Arc"
    by (rule parseType_arc(1) [OF t])
  show "\<exists>before t. s = before @ t \<and> starts_with t ''arc'' \<and> strstr s ''arc'' = Some t
           \<and> encoderCount (parseType ovf (MonomeDeviceInfo_new\<lparr>info_type := s\<rparr>))
               = (case sscanf_arc_d ovf t of Some n \<Rightarrow> n | None \<Rightarrow> 4)"
    using strstr_Some [OF t] parseType_arc(2) [OF t] t by blast
next
  assume a: "s = pre @ ''arc '' @ ds @ rest \<and> CHR ''a'' \<notin> set pre \<and> ds \<noteq> [] \<and> list_all isdigit ds
        \<and> (rest = [] \<or> \<not> isdigit (hd rest)) \<and> decimal ds \<le> 2147483647"
  then have "s = pre @ ''arc'' @ (CHR '' '' # ds @ rest)" by simp
  then have t: "strstr s ''arc'' = Some (''arc '' @ ds @ rest)"
    using a strstr_first_arc [of pre "CHR '' '' # ds @ rest"] by simp
  have "sscanf_arc_d ovf (''arc '' @ ds @ rest) = Some (decimal ds)"
    using a by (intro sscanf_arc_number) simp_all
  then show "encoderCount (parseType ovf (MonomeDeviceInfo_new\<lparr>info_type := s\<rparr>)) = decimal ds"
    using parseType_arc(2) [OF t] by simp
next
  assume a: "\<not> occurs_in ''arc'' s \<and> occurs_in ''monome'' s"
  then have n: "strstr s ''arc'' = None" and "strstr s ''monome'' \<noteq> None"
    by (simp_all add: occurs_in_iff)
  then obtain g where g: "strstr s ''monome'' = Some g" by auto
  show "parseType ovf (MonomeDeviceInfo_new\<lparr>info_type := s\<rparr>)
        = MonomeDeviceInfo_new\<lparr>info_type := s, deviceType := Grid\<rparr>"
    using n g by (simp add: parseType_def)
  then show "deviceType (parseType ovf (MonomeDeviceInfo_new\<lparr>info_type := s\<rparr>)) = Grid"
    "info_width (parseType ovf (MonomeDeviceInfo_new\<lparr>info_type := s\<rparr>)) = 0"
    "info_height (parseType ovf (MonomeDeviceInfo_new\<lparr>info_type := s\<rparr>)) = 0"
    by (simp_all add: MonomeDeviceInfo_new_def)
next
  assume a: "\<not> occurs_in ''arc'' s \<and> \<not> occurs_in ''monome'' s"
  then have n: "strstr s ''arc'' = None" "strstr s ''monome'' = None"
    by (simp_all add: occurs_in_iff)
  show "parseType ovf (MonomeDeviceInfo_new\<lparr>info_type := s\<rparr>) = MonomeDeviceInfo_new\<lparr>info_type := s\<rparr>"
    using n by (simp add: parseType_def)
  then show "deviceType (parseType ovf (MonomeDeviceInfo_new\<lparr>info_type := s\<rparr>)) = Unknown"
    by (simp add: MonomeDeviceInfo_new_def)
qed

theorem parseType_classifies_witness:
  "deviceType (parseType (\<lambda>n. 0) (MonomeDeviceInfo_new\<lparr>info_type := ''monome arc 4''\<rparr>)) = Arc
   \<and> encoderCount (parseType (\<lambda>n. 0) (MonomeDeviceInfo_new\<lparr>info_type := ''monome arc 4''\<rparr>)) = 4
   \<and> deviceType (parseType (\<lambda>n. 0) (MonomeDeviceInfo_new\<lparr>info_type := ''monome 128''\<rparr>)) = Grid
   \<and> deviceType (parseType (\<lambda>n. 0) (MonomeDeviceInfo_new\<lparr>info_type := ''unknown device''\<rparr>)) = Unknown"
proof -
  have d: "decimal ''4'' = 4" by (simp add: decimal_def digit_value_def)
  have g: "isdigit CHR ''4''" by (simp add: isdigit_def)
  show ?thesis
    using parseType_classifies [where s = "''monome arc 4''" and pre = "''monome ''"
        and ds = "''4''" and rest = "[]" and ovf = "\<lambda>n. 0"]
      parseType_classifies [where s = "''monome 128''" and pre = "[]" and ds = "[]"
        and rest = "[]" and ovf = "\<lambda>n. 0"]
      parseType_classifies [where s = "''unknown device''" and pre = "[]" and ds = "[]"
        and rest = "[]" and ovf = "\<lambda>n. 0"]
    by (simp add: occurs_in_iff d g MonomeDeviceInfo_new_def)
qed

section \<open>Connecting a device\<close>

text \<open>
  C9 (as amended). When a device that is not connected calls \<open>connect(host, localPort)\<close>
  and the outbound or the inbound socket cannot be opened, \<open>connect\<close> returns false,
  the device stays disconnected, the outbound socket is closed (released again when the
  inbound one failed), the inbound socket is closed, and no message is sent. The device
  is as before except for the sockets and for \<open>host_\<close> and \<open>localPort_\<close>, which hold the
  arguments of the failed attempt.
\<close>

theorem connect_failure:
  assumes "\<not> connected d"
    and "\<not> sender_opens net h (port (info d)) \<or> \<not> receiver_opens net lp"
  shows "fst (connect net d h lp) = False
     \<and> connected (snd (connect net d h lp)) = False
     \<and> sender_open (sender (snd (connect net d h lp))) = False
     \<and> (sender_opens net h (port (info d)) \<or> \<not> receiver_open d
          \<longrightarrow> receiver_open (snd (connect net d h lp)) = False)
     \<and> sent (sender (snd (connect net d h lp))) = sent (sender d)
     \<and> snd (connect net d h lp)
         = d\<lparr>host := h, localPort := lp,
             sender := (sender d)\<lparr>sender_open := False\<rparr>,
             receiver_open := (if sender_opens net h (port (info d)) then False
                               else receiver_open d)\<rparr>"
  using assms
  by (auto simp add: connect_def Let_def OSCSender_open_def OSCSender_close_def)

theorem connect_failure_witness:
  "fst (connect net_no_receiver fresh_device ''127.0.0.1'' 13001) = False
   \<and> connected (snd (connect net_no_receiver fresh_device ''127.0.0.1'' 13001)) = False
   \<and> sender_open (sender (snd (connect net_no_receiver fresh_device ''127.0.0.1'' 13001))) = False
   \<and> receiver_open (snd (connect net_no_receiver fresh_device ''127.0.0.1'' 13001)) = False
   \<and> sent (sender (snd (connect net_no_receiver fresh_device ''127.0.0.1'' 13001))) = []
   \<and> fst (connect net_no_sender fresh_device ''127.0.0.1'' 13001) = False"
  using connect_failure [of fresh_device net_no_receiver "''127.0.0.1''" 13001]
    connect_failure [of fresh_device net_no_sender "''127.0.0.1''" 13001]
  by (simp add: fresh_device_def MonomeDevice_new_def net_no_receiver_def net_no_sender_def)

text \<open>
  C9 as stated ("no partial state is retained") fails: \<open>host_\<close> and \<open>localPort_\<close> are
  assigned before the sockets are opened and are not restored.
\<close>

theorem connect_failure_keeps_host_counterexample:
  "fst (connect net_no_sender fresh_device ''127.0.0.1'' 13001) = False
   \<and> host fresh_device = []
   \<and> localPort fresh_device = 0
   \<and> host (snd (connect net_no_sender fresh_device ''127.0.0.1'' 13001)) = ''127.0.0.1''
   \<and> localPort (snd (connect net_no_sender fresh_device ''127.0.0.1'' 13001)) = 13001
   \<and> snd (connect net_no_sender fresh_device ''127.0.0.1'' 13001) \<noteq> fresh_device"
  by (simp add: connect_def Let_def OSCSender_open_def fresh_device_def MonomeDevice_new_def
      net_no_sender_def)

section \<open>Duplicate adds and unknown removes\<close>

lemma handleDeviceAdd_present:
  "devices svc did \<noteq> None \<Longrightarrow> handleDeviceAdd ovf net svc did dtype dport = svc"
  by (simp add: handleDeviceAdd_def)

lemma handleDeviceRemove_absent:
  "devices svc did = None \<Longrightarrow> handleDeviceRemove svc did = svc"
  by (simp add: handleDeviceRemove_def)

lemma handleDeviceAdd_callbacks:
  "callbackCalls (handleDeviceAdd ovf net svc did dtype dport) = callbackCalls svc
   \<or> (\<exists>i. callbackCalls (handleDeviceAdd ovf net svc did dtype dport) = callbackCalls svc @ [(i, True)]
          \<and> devices (handleDeviceAdd ovf net svc did dtype dport) did \<noteq> None)"
  by (auto simp add: handleDeviceAdd_def Let_def split: option.splits prod.splits)

lemma handleDeviceAdd_others:
  "k \<noteq> did \<Longrightarrow> devices (handleDeviceAdd ovf net svc did dtype dport) k = devices svc k"
  by (auto simp add: handleDeviceAdd_def Let_def split: option.splits prod.splits)

lemma handleDeviceAdd_keeps:
  "devices svc k \<noteq> None \<Longrightarrow> devices (handleDeviceAdd ovf net svc did dtype dport) k = devices svc k"
  by (auto simp add: handleDeviceAdd_def Let_def split: option.splits prod.splits)

text \<open>
  C8. An add for an identity already in the registry leaves the whole service state
  unchanged (registry, callback invocations, actor registrations, notifications). A
  remove for an identity not in the registry leaves it unchanged as well. Hence, of two
  adds of one identity, the second changes nothing once the first has registered the
  device, and the two together invoke the callback at most once, whatever the network
  does. The witness adds a grid twice to an empty service: one entry, one callback.
\<close>

theorem duplicate_add_and_unknown_remove:
  "(devices svc did \<noteq> None \<longrightarrow> handleDeviceAdd ovf net svc did dtype dport = svc)
   \<and> (devices svc did = None \<longrightarrow> handleDeviceRemove svc did = svc)
   \<and> (devices (handleDeviceAdd ovf net svc did dtype dport) did \<noteq> None \<longrightarrow>
        handleDeviceAdd ovf' net' (handleDeviceAdd ovf net svc did dtype dport) did dtype' dport'
          = handleDeviceAdd ovf net svc did dtype dport)
   \<and> length (callbackCalls
         (handleDeviceAdd ovf' net' (handleDeviceAdd ovf net svc did dtype dport) did dtype' dport'))
       \<le> length (callbackCalls svc) + 1"
proof -
  let ?s1 = "handleDeviceAdd ovf net svc did dtype dport"
  let ?s2 = "handleDeviceAdd ovf' net' ?s1 did dtype' dport'"
  have "length (callbackCalls ?s2) \<le> length (callbackCalls svc) + 1"
  proof (cases "devices ?s1 did = None")
    case True
    then have "callbackCalls ?s1 = callbackCalls svc"
      using handleDeviceAdd_callbacks [of ovf net svc did dtype dport] by auto
    then show ?thesis
      using handleDeviceAdd_callbacks [of ovf' net' ?s1 did dtype' dport'] by auto
  next
    case False
    then have "?s2 = ?s1" by (simp add: handleDeviceAdd_present)
    then show ?thesis
      using handleDeviceAdd_callbacks [of ovf net svc did dtype dport] by auto
  qed
  then show ?thesis
    by (simp add: handleDeviceAdd_present handleDeviceRemove_absent)
qed

lemma findAvailablePort_first:
  "port_available net p \<Longrightarrow> findAvailablePort net p = p"
  by (simp add: findAvailablePort_def upto_rec1 [of p "p + 99"])

lemma add_grid_to_empty_service:
  "devices (handleDeviceAdd (\<lambda>n. 0) net_all_ok empty_service ''m0000123'' ''monome 128'' 14001)
     ''m0000123'' \<noteq> None
   \<and> callbackCalls (handleDeviceAdd (\<lambda>n. 0) net_all_ok empty_service ''m0000123'' ''monome 128'' 14001)
       = [(grid_info, True)]"
proof -
  have p: "findAvailablePort net_all_ok 13100 = 13100"
    by (rule findAvailablePort_first) (simp add: net_all_ok_def)
  have i: "parseType (\<lambda>n. 0)
        (MonomeDeviceInfo_new\<lparr>info_id := ''m0000123'', info_type := ''monome 128'', port := 14001\<rparr>)
        = grid_info"
    by (simp add: parseType_def grid_info_def MonomeDeviceInfo_new_def)
  have c: "createDevice grid_info = Some (GridDev (MonomeGrid_new grid_info))"
    by (simp add: createDevice_def isGrid_def grid_info_def)
  have k: "fst (connect net_all_ok (setListenerActor (MonomeGrid_new grid_info) [''app''])
                ''127.0.0.1'' 13100)"
    by (simp add: connect_def MonomeGrid_new_def setListenerActor_def OSCSender_open_def
        net_all_ok_def Let_def)
  show ?thesis
    using k
    by (auto simp add: handleDeviceAdd_def empty_service_def i c p Let_def split: prod.splits)
qed

theorem duplicate_add_and_unknown_remove_witness:
  "handleDeviceAdd (\<lambda>n. 0) net_all_ok
       (handleDeviceAdd (\<lambda>n. 0) net_all_ok empty_service ''m0000123'' ''monome 128'' 14001)
       ''m0000123'' ''monome 128'' 14001
     = handleDeviceAdd (\<lambda>n. 0) net_all_ok empty_service ''m0000123'' ''monome 128'' 14001
   \<and> callbackCalls (handleDeviceAdd (\<lambda>n. 0) net_all_ok
       (handleDeviceAdd (\<lambda>n. 0) net_all_ok empty_service ''m0000123'' ''monome 128'' 14001)
       ''m0000123'' ''monome 128'' 14001) = [(grid_info, True)]
   \<and> handleDeviceRemove empty_service ''m0000123'' = empty_service"
proof -
  have e: "devices empty_service ''m0000123'' = None" by (simp add: empty_service_def)
  show ?thesis
    using duplicate_add_and_unknown_remove [of empty_service "''m0000123''" "\<lambda>n. 0" net_all_ok
        "''monome 128''" 14001 "\<lambda>n. 0" net_all_ok "''monome 128''" 14001]
      add_grid_to_empty_service e
    by simp
qed

section \<open>Resizing the grid on a size report\<close>

lemma base_handleSysMessage_keeps:
  "sender (MonomeDevice_handleSysMessage cv d a args) = sender d"
  "connected (MonomeDevice_handleSysMessage cv d a args) = connected d"
  by (simp_all add: MonomeDevice_handleSysMessage_def Let_def)

text \<open>
  C10. When a grid handles a system message whose second address symbol is \<open>size\<close>
  and whose first two arguments are positive integers \<open>w\<close> and \<open>h\<close>, its LED buffer
  becomes \<open>GridLedBuffer(w, h)\<close>: all 256 levels are 0, whatever was set before, the
  dirty mask is 0 (no quadrant is dirty), and the sender is untouched: nothing is sent.
\<close>

theorem size_message_resets_buffer:
  assumes "length address \<ge> 2" and "address ! 1 = ''size''"
    and "args = IntValue w # IntValue h # rest" and "w > 0" and "h > 0"
  shows "ledBuffer (MonomeGrid_handleSysMessage cv g address args) = GridLedBuffer_new w h
    \<and> levels (ledBuffer (MonomeGrid_handleSysMessage cv g address args)) = replicate 256 0
    \<and> (\<forall>i < 256. levels (ledBuffer (MonomeGrid_handleSysMessage cv g address args)) ! i = 0)
    \<and> (y * 16 + x < 256 \<longrightarrow>
         GridLedBuffer_getLevel (ledBuffer (MonomeGrid_handleSysMessage cv g address args)) x y = 0)
    \<and> dirtyMask (ledBuffer (MonomeGrid_handleSysMessage cv g address args)) = 0
    \<and> \<not> GridLedBuffer_isDirty (ledBuffer (MonomeGrid_handleSysMessage cv g address args))
    \<and> \<not> isQuadrantDirty (ledBuffer (MonomeGrid_handleSysMessage cv g address args)) qx qy
    \<and> getDirtyQuadrants (ledBuffer (MonomeGrid_handleSysMessage cv g address args)) = []
    \<and> width (ledBuffer (MonomeGrid_handleSysMessage cv g address args)) = w
    \<and> height (ledBuffer (MonomeGrid_handleSysMessage cv g address args)) = h
    \<and> sent (sender (MonomeGrid_handleSysMessage cv g address args)) = sent (sender g)
    \<and> sender (MonomeGrid_handleSysMessage cv g address args) = sender g"
proof -
  let ?g' = "MonomeGrid_handleSysMessage cv g address args"
  have b: "ledBuffer ?g' = GridLedBuffer_new w h"
    using assms by (simp add: MonomeGrid_handleSysMessage_def getIntValue_def Let_def)
  have s: "sender ?g' = sender g"
    using assms
    by (simp add: MonomeGrid_handleSysMessage_def getIntValue_def Let_def
        base_handleSysMessage_keeps)
  have q: "\<not> isQuadrantDirty (GridLedBuffer_new w h) qx qy" for qx qy
    by (simp add: isQuadrantDirty_def GridLedBuffer_new_def)
  have dq: "getDirtyQuadrants (GridLedBuffer_new w h) = []"
    by (simp add: getDirtyQuadrants_def q)
  have gl: "y * 16 + x < 256 \<longrightarrow> GridLedBuffer_getLevel (GridLedBuffer_new w h) x y = 0"
    by (auto simp add: GridLedBuffer_getLevel_def GridLedBuffer_new_def)
  show ?thesis
    unfolding b s using q dq gl
    by (simp add: GridLedBuffer_new_def GridLedBuffer_isDirty_def)
qed

theorem size_message_resets_buffer_witness:
  "ledBuffer (MonomeGrid_handleSysMessage \<lparr>int_of_other = (\<lambda>v. 0), text_of_other = (\<lambda>v. [])\<rparr>
       ((MonomeGrid_new grid_info)\<lparr>ledBuffer := GridLedBuffer_setLevel (GridLedBuffer_new 16 8) 3 4 9\<rparr>)
       [''sys'', ''size''] [IntValue 16, IntValue 16])
     = GridLedBuffer_new 16 16
   \<and> GridLedBuffer_getLevel (GridLedBuffer_setLevel (GridLedBuffer_new 16 8) 3 4 9) 3 4 = 9
   \<and> GridLedBuffer_getLevel
       (ledBuffer (MonomeGrid_handleSysMessage \<lparr>int_of_other = (\<lambda>v. 0), text_of_other = (\<lambda>v. [])\<rparr>
         ((MonomeGrid_new grid_info)\<lparr>ledBuffer := GridLedBuffer_setLevel (GridLedBuffer_new 16 8) 3 4 9\<rparr>)
         [''sys'', ''size''] [IntValue 16, IntValue 16])) 3 4 = 0
   \<and> sent (sender (MonomeGrid_handleSysMessage \<lparr>int_of_other = (\<lambda>v. 0), text_of_other = (\<lambda>v. [])\<rparr>
       ((MonomeGrid_new grid_info)\<lparr>ledBuffer := GridLedBuffer_setLevel (GridLedBuffer_new 16 8) 3 4 9\<rparr>)
       [''sys'', ''size''] [IntValue 16, IntValue 16])) = []"
proof -
  let ?g = "(MonomeGrid_new grid_info)\<lparr>ledBuffer := GridLedBuffer_setLevel (GridLedBuffer_new 16 8) 3 4 9\<rparr>"
  let ?cv = "\<lparr>int_of_other = (\<lambda>v. 0), text_of_other = (\<lambda>v. [])\<rparr>"
  let ?g' = "MonomeGrid_handleSysMessage ?cv ?g [''sys'', ''size''] [IntValue 16, IntValue 16]"
  have l: "GridLedBuffer_getLevel (GridLedBuffer_setLevel (GridLedBuffer_new 16 8) 3 4 9) 3 4 = 9"
    by (simp add: GridLedBuffer_new_def GridLedBuffer_setLevel_def GridLedBuffer_getLevel_def
        writeCell_def clampLevel_def std_clamp_def Let_def)
  have h: "2 \<le> length [''sys'', ''size'']" "[''sys'', ''size''] ! 1 = ''size''"
    "[IntValue 16, IntValue 16] = IntValue 16 # IntValue 16 # []" "(16::int) > 0"
    by simp_all
  note t = size_message_resets_buffer [OF h(1) h(2) h(3) h(4) h(4), where x = 3 and y = 4
      and qx = 0 and qy = 0 and cv = ?cv and g = ?g]
  from t have c1: "ledBuffer ?g' = GridLedBuffer_new 16 16" by (rule conjunct1)
  from t have "4 * 16 + 3 < (256::int) \<longrightarrow> GridLedBuffer_getLevel (ledBuffer ?g') 3 4 = 0"
    by blast
  then have c2: "GridLedBuffer_getLevel (ledBuffer ?g') 3 4 = 0" by simp
  from t have "sent (sender ?g') = sent (sender ?g)" by blast
  moreover have "sent (sender ?g) = []" by (simp add: MonomeGrid_new_def)
  ultimately have c3: "sent (sender ?g') = []" by (rule trans)
  from c1 l c2 c3 show ?thesis by (intro conjI)
qed

section \<open>Flushing dirty regions\<close>







lemma send_fields [simp]:
  "sent (sender (send m d)) = sent (sender d) @ [m]"
  "prefix (send m d) = prefix d"
  by (simp_all add: send_def sendTo_def)

lemma send_ledBuffer [simp]: "ledBuffer (send m g) = ledBuffer g"
  by (simp add: send_def)

lemma send_ringBuffers [simp]: "ringBuffers (send m a) = ringBuffers a"
  by (simp add: send_def)


























end
